(* ===== verification/Rust_Prelude.thy ===== *)
theory Rust_Prelude
  imports Main "HOL-Library.Word"
begin

text \<open>
  Shared vocabulary of the development: machine integers, byte strings, Rust
  \<^verbatim>\<open>Result\<close> values with panics as a separate error, cursors over byte buffers
  (the \<^verbatim>\<open>bytes::Buf\<close> reads the sources use), big-endian integers, UTF-8
  validation and ASCII case folding. Each component theory imports this one.

  Conventions. A Rust \<^verbatim>\<open>String\<close> is an Isabelle \<open>string\<close>, one \<open>char\<close> per
  UTF-8 byte, so that lengths count bytes as \<^verbatim>\<open>str::len\<close> does; a byte slice is a list
  of \<open>8 word\<close>. Lengths and indices (\<^verbatim>\<open>usize\<close>) are \<open>nat\<close>: the target is 64-bit and
  a slice never exceeds \<open>2 ^ 63 - 1\<close> bytes, so sums of two lengths do not wrap. A
  buffer read that runs past the end is a panic in Rust and the value
  \<open>Inl (Panic _)\<close> here.
\<close>

unbundle bit_operations_syntax

type_synonym u8 = "8 word"
type_synonym u16 = "16 word"
type_synonym u32 = "32 word"
type_synonym u64 = "64 word"
type_synonym u128 = "128 word"
type_synonym bytes = "u8 list"

named_theorems codec_simps \<open>encoders and decoders of wire formats\<close>
named_theorems route_simps \<open>matchers of the routing and DNS rules\<close>
named_theorems state_simps \<open>operations on component states\<close>


section \<open>Results, errors and panics\<close>

datatype error = Err string | is_Panic: Panic string

type_synonym 'a res = "error + 'a"

fun bindR :: "'a res \<Rightarrow> ('a \<Rightarrow> 'b res) \<Rightarrow> 'b res" where
  "bindR (Inl e) f = Inl e"
| "bindR (Inr x) f = f x"

lemma bindR_split:
  "P (bindR m f) \<longleftrightarrow> (\<forall>e. m = Inl e \<longrightarrow> P (Inl e)) \<and> (\<forall>x. m = Inr x \<longrightarrow> P (f x))"
  by (cases m) auto

lemma bindR_eq_Inr_iff [simp]: "bindR m f = Inr y \<longleftrightarrow> (\<exists>x. m = Inr x \<and> f x = Inr y)"
  by (cases m) auto

lemma bindR_assoc: "bindR (bindR m f) g = bindR m (\<lambda>x. bindR (f x) g)"
  by (cases m) auto

definition is_ok :: "'a res \<Rightarrow> bool" where
  "is_ok r = (case r of Inl _ \<Rightarrow> False | Inr _ \<Rightarrow> True)"

definition panics :: "'a res \<Rightarrow> bool" where
  "panics r = (case r of Inl e \<Rightarrow> is_Panic e | Inr _ \<Rightarrow> False)"

lemma panics_simps [simp]: "panics (Inl e) = is_Panic e" "\<not> panics (Inr x)"
  by (simp_all add: panics_def)

lemma is_ok_simps [simp]: "is_ok (Inr x)" "\<not> is_ok (Inl e)"
  by (simp_all add: is_ok_def)

lemma panics_bindR:
  "panics (bindR m f) \<longleftrightarrow> panics m \<or> (\<exists>x. m = Inr x \<and> panics (f x))"
  by (cases m) auto

lemma not_panics_bindR [intro]:
  "\<lbrakk>\<not> panics m; \<And>x. m = Inr x \<Longrightarrow> \<not> panics (f x)\<rbrakk> \<Longrightarrow> \<not> panics (bindR m f)"
  by (simp add: panics_bindR)


text \<open>\<^verbatim>\<open>Option::context\<close>: an absent value becomes an error.\<close>

definition with_context :: "string \<Rightarrow> 'a option \<Rightarrow> 'a res" where
  "with_context m x = (case x of None \<Rightarrow> Inl (Err m) | Some v \<Rightarrow> Inr v)"

lemma with_context_simps [simp]:
  "with_context m (Some v) = Inr v" "with_context m None = Inl (Err m)"
  by (simp_all add: with_context_def)

lemma not_panics_with_context [simp]: "\<not> panics (with_context m x)"
  by (cases x) simp_all


section \<open>Reading a buffer\<close>

text \<open>
  A \<^verbatim>\<open>Buf\<close> cursor is the list of the bytes it still holds; every read returns the
  value and the advanced cursor.
\<close>

definition get_u8 :: "bytes \<Rightarrow> (u8 \<times> bytes) res" where
  "get_u8 bs = (case bs of [] \<Rightarrow> Inl (Panic ''get_u8'') | b # r \<Rightarrow> Inr (b, r))"

definition copy_to_bytes :: "nat \<Rightarrow> bytes \<Rightarrow> (bytes \<times> bytes) res" where
  "copy_to_bytes n bs =
     (if length bs < n then Inl (Panic ''copy_to_bytes'') else Inr (take n bs, drop n bs))"

text \<open>Slice indexing: \<^verbatim>\<open>xs[i]\<close>, \<^verbatim>\<open>&xs[n..]\<close> and \<^verbatim>\<open>&xs[..n]\<close> panic out of range.\<close>

definition idx :: "'a list \<Rightarrow> nat \<Rightarrow> 'a res" where
  "idx xs i = (if i < length xs then Inr (xs ! i) else Inl (Panic ''index out of bounds''))"

definition slice_from :: "nat \<Rightarrow> 'a list \<Rightarrow> 'a list res" where
  "slice_from n xs = (if n \<le> length xs then Inr (drop n xs) else Inl (Panic ''slice start''))"

definition slice_to :: "nat \<Rightarrow> 'a list \<Rightarrow> 'a list res" where
  "slice_to n xs = (if n \<le> length xs then Inr (take n xs) else Inl (Panic ''slice end''))"

lemma slice_simps [simp]:
  "i < length xs \<Longrightarrow> idx xs i = Inr (xs ! i)"
  "n \<le> length xs \<Longrightarrow> slice_from n xs = Inr (drop n xs)"
  "n \<le> length xs \<Longrightarrow> slice_to n xs = Inr (take n xs)"
  by (simp_all add: idx_def slice_from_def slice_to_def)

text \<open>Big-endian integers, as \<^verbatim>\<open>to_be_bytes\<close> and \<^verbatim>\<open>from_be_bytes\<close> lay them out.\<close>

fun be_bytes :: "nat \<Rightarrow> 'a::len word \<Rightarrow> bytes" where
  "be_bytes 0 v = []"
| "be_bytes (Suc n) v = ucast (drop_bit (8 * n) v) # be_bytes n v"

fun be_fold :: "'a::len word \<Rightarrow> bytes \<Rightarrow> 'a word" where
  "be_fold acc [] = acc"
| "be_fold acc (b # bs) = be_fold (push_bit 8 acc OR ucast b) bs"

definition get_be :: "nat \<Rightarrow> bytes \<Rightarrow> ('a::len word \<times> bytes) res" where
  "get_be n bs =
     (if length bs < n then Inl (Panic ''get_be'')
      else Inr (be_fold 0 (take n bs), drop n bs))"

text \<open>\<^verbatim>\<open>Read::read_exact\<close> on the bytes a reader has left.\<close>

definition read_exact :: "nat \<Rightarrow> bytes \<Rightarrow> (bytes \<times> bytes) res" where
  "read_exact n r =
     (if length r < n then Inl (Err ''failed to fill whole buffer'') else Inr (take n r, drop n r))"

abbreviation get_u16 :: "bytes \<Rightarrow> (u16 \<times> bytes) res" where "get_u16 \<equiv> get_be 2"
abbreviation get_u32 :: "bytes \<Rightarrow> (u32 \<times> bytes) res" where "get_u32 \<equiv> get_be 4"
abbreviation get_u64 :: "bytes \<Rightarrow> (u64 \<times> bytes) res" where "get_u64 \<equiv> get_be 8"


lemma find_SomeD: "find P xs = Some x \<Longrightarrow> x \<in> set xs \<and> P x"
  by (induction xs) (auto split: if_splits)

lemma length_be_bytes [simp]: "length (be_bytes n v) = n"
  by (induction n) auto

lemma be_bytes_numeral [simp]:
  "be_bytes (numeral k) v =
     ucast (drop_bit (8 * pred_numeral k) v) # be_bytes (pred_numeral k) v"
  by (simp add: numeral_eq_Suc)

lemma bit_beyond [simp]: "LENGTH('a) \<le> n \<Longrightarrow> \<not> bit (v :: 'a::len word) n"
  using bit_imp_le_length leD by blast

lemma unat_u8_less [simp]: "unat (b :: u8) < 256"
  using unsigned_less [of b, where 'a = nat] by simp

lemma unat_drop_bit: "unat (drop_bit n (v :: 'a::len word)) = unat v div 2 ^ n"
  unfolding unat_drop_bit_eq by (simp add: drop_bit_eq_div)

lemma take_bit_small:
  fixes v :: "'a::len word"
  assumes "v < 2 ^ k"
  shows "take_bit k v = v"
  using less_mask_eq [OF assms] by (simp add: take_bit_eq_mask)

lemma take_bit_all [simp]: "LENGTH('a) \<le> k \<Longrightarrow> take_bit k (v :: 'a::len word) = v"
  by (rule bit_word_eqI) (simp add: bit_simps)

lemma be_fold_be_bytes:
  fixes acc :: "'a::len word"
  shows "be_fold acc (be_bytes n v) = push_bit (8 * n) acc OR take_bit (8 * n) v"
proof (induction n arbitrary: acc)
  case 0
  then show ?case by simp
next
  case (Suc n)
  have "be_fold acc (be_bytes (Suc n) v) =
      push_bit (8 * n) (push_bit 8 acc OR ucast (ucast (drop_bit (8 * n) v) :: u8))
        OR take_bit (8 * n) v"
    using Suc by simp
  also have "\<dots> = push_bit (8 * Suc n) acc OR take_bit (8 * Suc n) v"
    by (rule bit_word_eqI) (auto simp: bit_simps add.commute)
  finally show ?case .
qed

lemma get_be_be_bytes:
  fixes v :: "'a::len word"
  assumes "LENGTH('a) \<le> 8 * n"
  shows "get_be n (be_bytes n v @ rest) = Inr (v, rest)"
  using assms by (simp add: get_be_def be_fold_be_bytes del: be_bytes_numeral)

lemma get_u8_Cons [simp]: "get_u8 (b # r) = Inr (b, r)"
  by (simp add: get_u8_def)

lemma get_u8_eq_Inr_iff: "get_u8 bs = Inr (b, r) \<longleftrightarrow> bs = b # r"
  by (cases bs) (auto simp: get_u8_def)

lemma get_be_length: "get_be n bs = Inr (v, r) \<Longrightarrow> length bs = n + length r"
  by (auto simp: get_be_def split: if_splits)

lemma copy_to_bytes_append [simp]: "copy_to_bytes (length xs) (xs @ r) = Inr (xs, r)"
  by (simp add: copy_to_bytes_def)

lemma panics_reads [simp]:
  "panics (get_be n bs) \<longleftrightarrow> length bs < n"
  "panics (copy_to_bytes n bs) \<longleftrightarrow> length bs < n"
  "panics (get_u8 bs) \<longleftrightarrow> bs = []"
  "panics (idx xs i) \<longleftrightarrow> length xs \<le> i"
  "panics (slice_from n xs) \<longleftrightarrow> length xs < n"
  "panics (slice_to n xs) \<longleftrightarrow> length xs < n"
  by (auto simp: get_be_def copy_to_bytes_def get_u8_def idx_def slice_from_def slice_to_def
      split: list.splits)


section \<open>Strings as UTF-8 bytes\<close>

definition as_bytes :: "string \<Rightarrow> bytes" where
  "as_bytes s = map of_char s"

definition str_of_bytes :: "bytes \<Rightarrow> string" where
  "str_of_bytes bs = map (\<lambda>b. char_of (unat b)) bs"

lemma length_as_bytes [simp]: "length (as_bytes s) = length s"
  by (simp add: as_bytes_def)

lemma char_of_unat_of_char [simp]: "char_of (unat (of_char c :: u8)) = c"
proof -
  have "unat (of_char c :: u8) = of_char c"
    by (cases c) (simp add: of_char_def)
  then show ?thesis by simp
qed

lemma str_of_as_bytes [simp]: "str_of_bytes (as_bytes s) = s"
  by (simp add: as_bytes_def str_of_bytes_def o_def)

text \<open>\<^verbatim>\<open>starts_with\<close>, \<^verbatim>\<open>ends_with\<close> and \<^verbatim>\<open>contains\<close> for a pattern that is a slice.\<close>

fun starts_with :: "'a list \<Rightarrow> 'a list \<Rightarrow> bool" where
  "starts_with s [] = True"
| "starts_with [] (p # ps) = False"
| "starts_with (c # s) (p # ps) = (c = p \<and> starts_with s ps)"

definition ends_with :: "'a list \<Rightarrow> 'a list \<Rightarrow> bool" where
  "ends_with s p = starts_with (rev s) (rev p)"

fun contains :: "'a list \<Rightarrow> 'a list \<Rightarrow> bool" where
  "contains [] n = (n = [])"
| "contains (c # s) n = (starts_with (c # s) n \<or> contains s n)"

lemma starts_with_iff: "starts_with s p \<longleftrightarrow> (\<exists>r. s = p @ r)"
  by (induction s p rule: starts_with.induct) auto

lemma starts_with_take: "starts_with s p \<longleftrightarrow> length p \<le> length s \<and> take (length p) s = p"
  by (induction s p rule: starts_with.induct) auto

lemma ends_with_iff: "ends_with s p \<longleftrightarrow> (\<exists>r. s = r @ p)"
  unfolding ends_with_def starts_with_iff
  by (metis append_Nil2 rev_append rev_rev_ident)

lemma contains_iff: "contains s n \<longleftrightarrow> (\<exists>l r. s = l @ n @ r)"
proof (induction s)
  case Nil
  then show ?case by auto
next
  case (Cons c s)
  show ?case
  proof
    assume "contains (c # s) n"
    then consider r where "c # s = n @ r" | l r where "s = l @ n @ r"
      using Cons by (auto simp: starts_with_iff)
    then show "\<exists>l r. c # s = l @ n @ r"
      by cases (metis append_Nil, metis append_Cons)
  next
    assume "\<exists>l r. c # s = l @ n @ r"
    then obtain l r where e: "c # s = l @ n @ r" by blast
    show "contains (c # s) n"
    proof (cases l)
      case Nil
      with e have "starts_with (c # s) n" by (auto simp: starts_with_iff)
      then show ?thesis by simp
    next
      case l: (Cons d l')
      with e Cons.IH show ?thesis by auto
    qed
  qed
qed

text \<open>
  \<^verbatim>\<open>std::str::from_utf8\<close> accepts exactly the well-formed byte sequences of the Unicode
  standard: no overlong forms, no surrogates, nothing above U+10FFFF.
\<close>

definition utf8_cont :: "u8 \<Rightarrow> bool" where
  "utf8_cont b = (0x80 \<le> b \<and> b \<le> 0xBF)"

fun utf8_valid :: "bytes \<Rightarrow> bool" where
  "utf8_valid [] = True"
| "utf8_valid (b # bs) =
     (if b < 0x80 then utf8_valid bs
      else if 0xC2 \<le> b \<and> b \<le> 0xDF then
        (case bs of c # r \<Rightarrow> utf8_cont c \<and> utf8_valid r | _ \<Rightarrow> False)
      else if 0xE0 \<le> b \<and> b \<le> 0xEF then
        (case bs of c # d # r \<Rightarrow>
           (if b = 0xE0 then 0xA0 \<le> c \<and> c \<le> 0xBF
            else if b = 0xED then 0x80 \<le> c \<and> c \<le> 0x9F
            else utf8_cont c) \<and> utf8_cont d \<and> utf8_valid r
         | _ \<Rightarrow> False)
      else if 0xF0 \<le> b \<and> b \<le> 0xF4 then
        (case bs of c # d # e # r \<Rightarrow>
           (if b = 0xF0 then 0x90 \<le> c \<and> c \<le> 0xBF
            else if b = 0xF4 then 0x80 \<le> c \<and> c \<le> 0x8F
            else utf8_cont c) \<and> utf8_cont d \<and> utf8_cont e \<and> utf8_valid r
         | _ \<Rightarrow> False)
      else False)"

definition from_utf8 :: "bytes \<Rightarrow> string option" where
  "from_utf8 bs = (if utf8_valid bs then Some (str_of_bytes bs) else None)"

text \<open>A value of type \<^verbatim>\<open>String\<close> always holds valid UTF-8.\<close>

definition valid_str :: "string \<Rightarrow> bool" where
  "valid_str s = utf8_valid (as_bytes s)"

lemma from_utf8_as_bytes [simp]: "valid_str s \<Longrightarrow> from_utf8 (as_bytes s) = Some s"
  by (simp add: from_utf8_def valid_str_def)

lemma utf8_valid_ascii: "(\<And>b. b \<in> set bs \<Longrightarrow> b < 0x80) \<Longrightarrow> utf8_valid bs"
  by (induction bs) auto

end
