(* ===== verification/Wire_Codec.thy ===== *)
theory Wire_Codec
  imports Rust_Prelude
begin

text \<open>
  Self-delimiting encodings. The locale \<open>prefix_codec\<close> is the contract every wire
  format of the proxy protocols offers to the code that reads it from a stream:
  decoding an encoding followed by anything returns the value and exactly the rest.
  \<open>consuming_codec\<close> adds that a successful decode makes progress, which is what the
  stream loops rely on to end.

  The first provider is the QUIC-style variable-length integer of
  \<^verbatim>\<open>rsq/protocol.rs\<close> (\<^verbatim>\<open>write_varint\<close>, \<^verbatim>\<open>read_varint\<close>); \<^verbatim>\<open>rst/protocol.rs\<close> and
  \<^verbatim>\<open>hysteria2/protocol.rs\<close> contain the same two functions.
\<close>

section \<open>The codec interface\<close>

fun decode_many :: "(bytes \<Rightarrow> ('a \<times> bytes) res) \<Rightarrow> nat \<Rightarrow> bytes \<Rightarrow> ('a list \<times> bytes) res" where
  "decode_many dec 0 bs = Inr ([], bs)"
| "decode_many dec (Suc n) bs =
     bindR (dec bs) (\<lambda>(x, r). bindR (decode_many dec n r) (\<lambda>(xs, r'). Inr (x # xs, r')))"

locale prefix_codec =
  fixes enc :: "'a \<Rightarrow> bytes"
    and dec :: "bytes \<Rightarrow> ('a \<times> bytes) res"
    and valid :: "'a \<Rightarrow> bool"
  assumes dec_enc: "valid x \<Longrightarrow> dec (enc x @ rest) = Inr (x, rest)"
begin

lemma enc_prefix_free:
  assumes "valid x" "valid y" "enc x @ r = enc y @ s"
  shows "x = y" "r = s"
proof -
  have "Inr (x, r) = dec (enc x @ r)" by (rule dec_enc [OF assms(1), symmetric])
  also have "\<dots> = dec (enc y @ s)" by (simp only: assms(3))
  also have "\<dots> = Inr (y, s)" by (rule dec_enc [OF assms(2)])
  finally have "Inr (x, r) = (Inr (y, s) :: ('a \<times> bytes) res)" .
  then show "x = y" "r = s" by simp_all
qed

lemma enc_inj: "valid x \<Longrightarrow> valid y \<Longrightarrow> enc x = enc y \<Longrightarrow> x = y"
  using enc_prefix_free(1) [of x y "[]" "[]"] by simp

lemma decode_many_concat:
  "\<forall>x \<in> set xs. valid x \<Longrightarrow>
   decode_many dec (length xs) (concat (map enc xs) @ rest) = Inr (xs, rest)"
  by (induction xs) (simp_all add: dec_enc)

end

locale consuming_codec = prefix_codec +
  assumes dec_consumes: "dec bs = Inr (x, r) \<Longrightarrow> length r < length bs"
begin

lemma decode_many_consumes:
  "decode_many dec n bs = Inr (xs, r) \<Longrightarrow> length r + n \<le> length bs \<and> length xs = n"
proof (induction n arbitrary: bs xs)
  case 0
  then show ?case by simp
next
  case (Suc n)
  then obtain x r1 ys where "dec bs = Inr (x, r1)" "decode_many dec n r1 = Inr (ys, r)" "xs = x # ys"
    by (auto split: prod.splits)
  with Suc.IH [of r1 ys] dec_consumes [of bs x r1] show ?case by simp
qed

end


section \<open>Variable-length integers\<close>

definition write_varint :: "u64 \<Rightarrow> bytes" where
  "write_varint value =
     (if value \<le> 63 then [ucast value]
      else if value \<le> 16383 then [ucast (drop_bit 8 value) OR 0x40, ucast value]
      else if value \<le> 1073741823 then
        [ucast (drop_bit 24 value) OR 0x80, ucast (drop_bit 16 value),
         ucast (drop_bit 8 value), ucast value]
      else
        [ucast (drop_bit 56 value) OR 0xc0, ucast (drop_bit 48 value),
         ucast (drop_bit 40 value), ucast (drop_bit 32 value), ucast (drop_bit 24 value),
         ucast (drop_bit 16 value), ucast (drop_bit 8 value), ucast value])"

definition read_varint :: "bytes \<Rightarrow> (u64 \<times> bytes) res" where
  "read_varint buf =
     (if buf = [] then Inl (Err ''empty varint'')
      else bindR (get_u8 buf) (\<lambda>(first, buf).
        let len = 2 ^ unat (drop_bit 6 first); value = ucast (first AND 0x3f) in
        if len > 1 then
          if length buf < len - 1 then Inl (Err ''truncated varint'')
          else Inr (be_fold value (take (len - 1) buf), drop (len - 1) buf)
        else Inr (value, buf)))"

text \<open>
  Every form the writer chooses is a tagged top byte and \<open>k\<close> big-endian bytes, where
  the top two bits of the first byte give the length and the other six lose nothing
  below \<open>2 ^ 62\<close>.
\<close>

lemma drop_bit_6_tag:
  fixes b :: u8
  assumes "drop_bit 6 b = 0"
  shows "unat (drop_bit 6 (b OR 0x40)) = 1" "unat (drop_bit 6 (b OR 0x80)) = 2"
  using assms by (simp_all add: drop_bit_or)

lemma drop_bit_6_C0: "unat (drop_bit 6 ((b :: u8) OR 0xC0)) = 3"
proof -
  have "drop_bit 6 (b OR 0xC0) = (3 :: u8)"
  proof (rule bit_word_eqI)
    fix n assume "n < LENGTH(8)"
    then have "n \<in> {0,1,2,3,4,5,6,7}" by auto
    then show "bit (drop_bit 6 (b OR 0xC0)) n = bit (3 :: u8) n"
      by (auto simp: bit_simps)
  qed
  then show ?thesis by simp
qed

lemma drop_bit_ucast_0:
  fixes v :: u64
  assumes "v < 2 ^ (k + 6)"
  shows "drop_bit 6 (ucast (drop_bit k v) :: u8) = 0"
proof -
  have "take_bit (k + 6) v = v" using assms by (rule take_bit_small)
  then have "\<not> bit v n" if "k + 6 \<le> n" for n
    using that by (metis bit_take_bit_iff not_less)
  then show ?thesis
    by (intro bit_word_eqI) (auto simp: bit_simps)
qed

lemma ucast_low6:
  fixes v :: u64
  assumes "tag AND 0x3f = 0"
  shows "(ucast ((ucast (drop_bit k v) OR tag :: u8) AND 0x3f) :: u64) = take_bit 6 (drop_bit k v)"
proof -
  have m: "(0x3f :: u8) = mask 6" by (simp add: mask_eq_exp_minus_1)
  have "(ucast (drop_bit k v) OR tag) AND mask 6 = take_bit 6 (ucast (drop_bit k v) :: u8)"
    using assms by (simp add: m bit.conj_disj_distrib2 flip: take_bit_eq_mask)
  moreover have "(ucast (take_bit 6 (ucast (drop_bit k v) :: u8)) :: u64) = take_bit 6 (drop_bit k v)"
    by (intro bit_word_eqI) (auto simp: bit_simps)
  ultimately show ?thesis by (simp add: m)
qed

definition varint_form :: "u64 \<Rightarrow> nat \<Rightarrow> u8 \<Rightarrow> bool" where
  "varint_form v k tag \<longleftrightarrow>
     write_varint v = (ucast (drop_bit (8 * k) v) OR tag) # be_bytes k v \<and>
     2 ^ unat (drop_bit 6 (ucast (drop_bit (8 * k) v) OR tag :: u8)) = Suc k \<and>
     tag AND 0x3f = 0 \<and> take_bit (8 * k + 6) v = take_bit 62 v"

lemma write_varint_form: "\<exists>k tag. varint_form v k tag"
proof -
  consider "v \<le> 63" | "\<not> v \<le> 63" "v \<le> 16383"
    | "\<not> v \<le> 63" "\<not> v \<le> 16383" "v \<le> 1073741823"
    | "\<not> v \<le> 63" "\<not> v \<le> 16383" "\<not> v \<le> 1073741823" by blast
  then show ?thesis
  proof cases
    case 1
    then have b: "v < 2 ^ (0 + 6)" "v < 2 ^ 62" by (simp_all; unat_arith)+
    have "varint_form v 0 0"
      using 1 drop_bit_ucast_0 [OF b(1)] take_bit_small [OF b(1)] take_bit_small [OF b(2)]
      by (simp add: varint_form_def write_varint_def)
    then show ?thesis by blast
  next
    case 2
    then have b: "v < 2 ^ (8 + 6)" "v < 2 ^ 62" by (simp_all; unat_arith)+
    have "varint_form v 1 0x40"
      using 2 drop_bit_6_tag(1) [OF drop_bit_ucast_0 [OF b(1)]]
        take_bit_small [OF b(1)] take_bit_small [OF b(2)]
      by (simp add: varint_form_def write_varint_def)
    then show ?thesis by blast
  next
    case 3
    then have b: "v < 2 ^ (24 + 6)" "v < 2 ^ 62" by (simp_all; unat_arith)+
    have "varint_form v 3 0x80"
      using 3 drop_bit_6_tag(2) [OF drop_bit_ucast_0 [OF b(1)]]
        take_bit_small [OF b(1)] take_bit_small [OF b(2)]
      by (simp add: varint_form_def write_varint_def)
    then show ?thesis by blast
  next
    case 4
    then have "varint_form v 7 0xC0"
      using drop_bit_6_C0 [of "ucast (drop_bit 56 v)"]
      by (simp add: varint_form_def write_varint_def)
    then show ?thesis by blast
  qed
qed

lemma read_write_varint:
  "read_varint (write_varint v @ rest) = Inr (take_bit 62 v, rest)"
proof -
  obtain k tag where f: "varint_form v k tag" using write_varint_form by blast
  then have tag: "tag AND 0x3f = 0" by (simp add: varint_form_def)
  have "push_bit (8 * k) (take_bit 6 (drop_bit (8 * k) v)) OR take_bit (8 * k) v = take_bit (8 * k + 6) v"
    by (intro bit_word_eqI) (auto simp: bit_simps)
  then have "be_fold (take_bit 6 (drop_bit (8 * k) v)) (be_bytes k v) = take_bit 62 v"
    using f by (simp add: be_fold_be_bytes varint_form_def)
  with f show ?thesis
    by (cases k) (simp_all add: varint_form_def read_varint_def Let_def
        ucast_low6 [OF tag] ucast_low6 [OF tag, of 0, simplified])
qed

lemma read_varint_truncated:
  assumes "0 < n" "n < length (write_varint v)"
  shows "read_varint (take n (write_varint v)) = Inl (Err ''truncated varint'')"
proof -
  obtain k tag where "varint_form v k tag" using write_varint_form by blast
  with assms show ?thesis
    by (cases n) (auto simp: varint_form_def read_varint_def Let_def)
qed

lemma read_varint_Nil [simp]: "read_varint [] = Inl (Err ''empty varint'')"
  by (simp add: read_varint_def)

lemma read_varint_consumes:
  "read_varint bs = Inr (v, r) \<Longrightarrow> \<exists>h. bs = h @ r \<and> 1 \<le> length h \<and> length h \<le> 8"
proof -
  assume r: "read_varint bs = Inr (v, r)"
  then obtain f t where bs: "bs = f # t" by (cases bs) auto
  define n :: nat where "n = 2 ^ unat (drop_bit 6 f)"
  have "unat (drop_bit 6 f) \<le> 3"
    using unat_u8_less [of f] unat_drop_bit [of 6 f] by (simp del: unat_u8_less)
  then have "n \<le> 2 ^ 3" unfolding n_def by (rule power_increasing) simp
  then have n: "1 \<le> n" "n \<le> 8" by (simp_all add: n_def)
  have "r = drop (n - 1) t" "n - 1 \<le> length t"
    using r bs by (auto simp: read_varint_def Let_def n_def split: if_splits)
  then show ?thesis using n bs
    by (intro exI [of _ "f # take (n - 1) t"]) auto
qed

lemma read_varint_length:
  "read_varint bs = Inr (v, r) \<Longrightarrow> length r < length bs \<and> length bs \<le> length r + 8"
  using read_varint_consumes by fastforce

lemma not_panics_read_varint [simp]: "\<not> panics (read_varint bs)"
  by (cases bs) (auto simp: read_varint_def Let_def)

lemma read_varint_error:
  "read_varint bs = Inl e \<Longrightarrow> e = Err (if bs = [] then ''empty varint'' else ''truncated varint'')"
  by (cases bs) (auto simp: read_varint_def Let_def split: if_splits)

lemma take_bit_62_of_nat: "n < 2 ^ 62 \<Longrightarrow> take_bit 62 (of_nat n :: u64) = of_nat n"
  by (rule take_bit_small) (simp add: of_nat_word_less_iff [where 'a = 64, simplified] word_less_nat_alt unat_of_nat)

lemma write_varint_nonempty [simp]: "write_varint v \<noteq> []"
  by (simp add: write_varint_def)

interpretation varint: consuming_codec write_varint read_varint "\<lambda>v. v < 2 ^ 62"
proof unfold_locales
  fix x :: u64 and rest
  assume "x < 2 ^ 62"
  then show "read_varint (write_varint x @ rest) = Inr (x, rest)"
    by (simp only: read_write_varint take_bit_small)
next
  fix bs r and x :: u64
  assume "read_varint bs = Inr (x, r)"
  then show "length r < length bs" by (simp add: read_varint_length)
qed

text \<open>A byte count that fits the 62 bits of a varint is read back as the same \<^verbatim>\<open>usize\<close>.\<close>

lemma read_varint_len [codec_simps]:
  assumes "n < 2 ^ 62"
  shows "read_varint (write_varint (of_nat n) @ rest) = Inr (of_nat n, rest)"
    and "unat (of_nat n :: u64) = n"
proof -
  show "read_varint (write_varint (of_nat n) @ rest) = Inr (of_nat n, rest)"
    using assms by (simp add: read_write_varint take_bit_62_of_nat)
  show "unat (of_nat n :: u64) = n"
    using assms by (simp add: unat_of_nat)
qed

end
