(* ===== verification/Rsq_Protocol.thy ===== *)
theory Rsq_Protocol
  imports Wire_Codec
begin

text \<open>
  The RSQ wire format of \<^verbatim>\<open>rsb-protocol/src/rsq/protocol.rs\<close>: frames with magic, type,
  flags, a varint length, the payload and optional random padding; the TCP open and
  reply frames built on them; and the UDP datagram header. Random padding bytes are
  the argument \<open>fill\<close> (\<open>fill n\<close> is what \<^verbatim>\<open>fill_bytes\<close> writes into \<open>n\<close> bytes).
\<close>

section \<open>Definitions\<close>

definition MAGIC :: bytes where "MAGIC = as_bytes ''RSQ'' @ [1]"

definition FRAME_AUTH_REQ :: u8 where "FRAME_AUTH_REQ = 0x01"
definition FRAME_AUTH_OK :: u8 where "FRAME_AUTH_OK = 0x02"
definition FRAME_TCP_OPEN :: u8 where "FRAME_TCP_OPEN = 0x10"
definition FRAME_TCP_OK :: u8 where "FRAME_TCP_OK = 0x11"
definition FRAME_TCP_ERR :: u8 where "FRAME_TCP_ERR = 0x12"
definition FRAME_PING :: u8 where "FRAME_PING = 0x20"
definition FRAME_PONG :: u8 where "FRAME_PONG = 0x21"
definition FLAG_PADDING :: u8 where "FLAG_PADDING = 0x01"

definition encode_frame :: "(nat \<Rightarrow> bytes) \<Rightarrow> u8 \<Rightarrow> u8 \<Rightarrow> bytes \<Rightarrow> nat \<Rightarrow> bytes" where
  "encode_frame fill frame_type flags payload pad_len =
     (let pad_len = min pad_len 128;
          flags = (if pad_len > 0 then flags OR FLAG_PADDING else flags) in
      MAGIC @ [frame_type, flags] @ write_varint (of_nat (length payload)) @ payload @
      (if pad_len > 0 then of_nat pad_len # fill pad_len else []))"

record DecodedFrame =
  frame_type :: u8
  frame_flags :: u8
  frame_payload :: bytes

definition frame_wire_len :: "bytes \<Rightarrow> nat option res" where
  "frame_wire_len buf =
     (if length buf < 6 then Inr None
      else if take 4 buf \<noteq> MAGIC then Inl (Err ''bad rsq magic'')
      else bindR (idx buf 5) (\<lambda>flags. bindR (slice_from 6 buf) (\<lambda>cursor.
        case read_varint cursor of
          Inl e \<Rightarrow>
            (case e of Err m \<Rightarrow> if contains m ''truncated'' then Inr None else Inl e
             | Panic m \<Rightarrow> Inl e)
        | Inr (n, cursor) \<Rightarrow>
            let payload_len = unat n; header_len = length buf - length cursor in
            if length cursor < payload_len then Inr None
            else if flags AND FLAG_PADDING \<noteq> 0 then
              if length cursor < payload_len + 1 then Inr None
              else bindR (idx cursor payload_len) (\<lambda>p.
                let pad_len = unat p in
                if pad_len > 128 then Inl (Err ''invalid padding length'')
                else if length cursor < payload_len + 1 + pad_len then Inr None
                else Inr (Some (header_len + payload_len + (1 + pad_len))))
            else Inr (Some (header_len + payload_len + 0)))))"

definition frame_consumed_len :: "bytes \<Rightarrow> nat res" where
  "frame_consumed_len buf = bindR (frame_wire_len buf) (with_context ''incomplete frame'')"

definition try_decode_frame :: "bytes \<Rightarrow> DecodedFrame option res" where
  "try_decode_frame buf =
     bindR (frame_wire_len buf) (\<lambda>wire.
       case wire of None \<Rightarrow> Inr None
       | Some tot \<Rightarrow>
           if length buf < tot then Inr None
           else bindR (idx buf 4) (\<lambda>ft. bindR (idx buf 5) (\<lambda>fl.
             bindR (slice_from 6 buf) (\<lambda>cursor.
             bindR (read_varint cursor) (\<lambda>(n, cursor).
             bindR (slice_to (unat n) cursor) (\<lambda>payload.
               Inr (Some \<lparr>frame_type = ft, frame_flags = fl, frame_payload = payload\<rparr>)))))))"

definition decode_frame :: "bytes \<Rightarrow> (DecodedFrame \<times> bytes) res" where
  "decode_frame buf =
     bindR (bindR (frame_wire_len buf) (with_context ''incomplete frame'')) (\<lambda>tot.
     bindR (bindR (try_decode_frame buf) (with_context ''incomplete frame'')) (\<lambda>decoded.
     bindR (slice_from tot buf) (\<lambda>rest. Inr (decoded, rest))))"

definition encode_tcp_open :: "(nat \<Rightarrow> bytes) \<Rightarrow> string \<Rightarrow> nat \<Rightarrow> bytes" where
  "encode_tcp_open fill addr padding_len =
     encode_frame fill FRAME_TCP_OPEN 0 (as_bytes addr) padding_len"

definition encode_tcp_ok :: "(nat \<Rightarrow> bytes) \<Rightarrow> nat \<Rightarrow> bytes" where
  "encode_tcp_ok fill padding_len = encode_frame fill FRAME_TCP_OK 0 (as_bytes ''ok'') padding_len"

definition encode_tcp_err :: "(nat \<Rightarrow> bytes) \<Rightarrow> string \<Rightarrow> nat \<Rightarrow> bytes" where
  "encode_tcp_err fill message padding_len =
     encode_frame fill FRAME_TCP_ERR 0 (as_bytes message) padding_len"

datatype TcpOpenReply = ReplyOk | ReplyErr string

definition decode_tcp_open :: "bytes \<Rightarrow> (string \<times> bytes) res" where
  "decode_tcp_open buf =
     bindR (decode_frame buf) (\<lambda>(frame, rest).
       if frame_type frame \<noteq> FRAME_TCP_OPEN then Inl (Err ''expected TCP_OPEN'')
       else bindR (with_context ''tcp open target utf8'' (from_utf8 (frame_payload frame)))
         (\<lambda>s. Inr (s, rest)))"

text \<open>\<open>try_decode_tcp_reply\<close> also returns the buffer: it advances only past a complete reply.\<close>

definition try_decode_tcp_reply :: "bytes \<Rightarrow> (TcpOpenReply option \<times> bytes) res" where
  "try_decode_tcp_reply buf =
     bindR (frame_wire_len buf) (\<lambda>wire.
       case wire of None \<Rightarrow> Inr (None, buf)
       | Some tot \<Rightarrow>
           if length buf < tot then Inr (None, buf)
           else bindR (bindR (try_decode_frame buf) (with_context ''partial tcp reply frame'')) (\<lambda>frame.
             bindR (if frame_type frame = FRAME_TCP_OK then Inr ReplyOk
                    else if frame_type frame = FRAME_TCP_ERR then
                      Inr (ReplyErr (case from_utf8 (frame_payload frame) of
                                       Some m \<Rightarrow> m | None \<Rightarrow> ''connect failed''))
                    else Inl (Err ''unexpected tcp reply frame''))
             (\<lambda>reply. bindR (slice_from tot buf) (\<lambda>rest. Inr (Some reply, rest)))))"

text \<open>\<open>rnd\<close> is the value \<^verbatim>\<open>rand::random::<u32>()\<close> returned.\<close>

definition random_pad_len :: "u32 \<Rightarrow> nat \<Rightarrow> nat \<Rightarrow> nat" where
  "random_pad_len rnd mn mx = (let span = (mx - mn) + 1 in mn + unat rnd mod span)"

record UdpMessage =
  session_id :: u32
  packet_id :: u16
  fragment_id :: u8
  fragment_count :: u8
  msg_addr :: string
  msg_payload :: bytes

definition udp_encode :: "UdpMessage \<Rightarrow> bytes" where
  "udp_encode m =
     be_bytes 4 (session_id m) @ be_bytes 2 (packet_id m) @ [fragment_id m, fragment_count m] @
     write_varint (of_nat (length (msg_addr m))) @ as_bytes (msg_addr m) @ msg_payload m"

definition udp_decode :: "bytes \<Rightarrow> UdpMessage res" where
  "udp_decode buf =
     (if length buf < 8 then Inl (Err ''truncated udp header'')
      else bindR (get_u32 buf) (\<lambda>(sid, buf).
        bindR (get_u16 buf) (\<lambda>(pid, buf).
        bindR (get_u8 buf) (\<lambda>(fid, buf).
        bindR (get_u8 buf) (\<lambda>(fc, buf).
        bindR (read_varint buf) (\<lambda>(n, buf).
          let addr_len = unat n in
          if length buf < addr_len then Inl (Err ''truncated udp address'')
          else bindR (copy_to_bytes addr_len buf) (\<lambda>(addr_bytes, buf).
            bindR (with_context ''udp addr utf8'' (from_utf8 addr_bytes)) (\<lambda>a.
            bindR (copy_to_bytes (length buf) buf) (\<lambda>(p, buf).
              Inr \<lparr>session_id = sid, packet_id = pid, fragment_id = fid,
                   fragment_count = fc, msg_addr = a, msg_payload = p\<rparr>)))))))))"


section \<open>Frames\<close>

text \<open>The header part common to every statement about a buffer that starts with the magic.\<close>

lemma length_MAGIC [simp]: "length MAGIC = 4"
  by (simp add: MAGIC_def)

lemma frame_wire_len_hdr:
  "frame_wire_len (MAGIC @ t # fl # c) =
     (case read_varint c of
        Inl e \<Rightarrow> if c = [] then Inl (Err ''empty varint'') else Inr None
      | Inr (n, cur) \<Rightarrow>
          if length cur < unat n then Inr None
          else if fl AND FLAG_PADDING \<noteq> 0 then
            if length cur \<le> unat n then Inr None
            else if unat (cur ! unat n) > 128 then Inl (Err ''invalid padding length'')
            else if length cur < unat n + 1 + unat (cur ! unat n) then Inr None
            else Inr (Some (6 + length c - length cur + unat n + (1 + unat (cur ! unat n))))
          else Inr (Some (6 + length c - length cur + unat n)))"
  by (auto simp: frame_wire_len_def nth_append Let_def
      split: sum.splits dest!: read_varint_error)

lemma frame_buf_split:
  assumes "6 \<le> length buf" "take 4 buf = MAGIC"
  obtains t fl c where "buf = MAGIC @ t # fl # c"
proof -
  have "drop 4 buf \<noteq> []" "tl (drop 4 buf) \<noteq> []" using assms by (auto simp: tl_drop Suc_le_eq)
  then obtain t fl c where "drop 4 buf = t # fl # c"
    by (metis list.exhaust_sel)
  then have "buf = MAGIC @ t # fl # c"
    using assms(2) append_take_drop_id [of 4 buf] by simp
  then show thesis by (rule that)
qed

lemma try_decode_frame_hdr:
  assumes "frame_wire_len (MAGIC @ t # fl # c) = Inr (Some tot)"
  obtains n cur where "read_varint c = Inr (n, cur)" "unat n \<le> length cur" "tot \<le> 6 + length c"
    "length c - length cur + 6 + unat n \<le> tot"
    "try_decode_frame (MAGIC @ t # fl # c) =
       Inr (Some \<lparr>frame_type = t, frame_flags = fl, frame_payload = take (unat n) cur\<rparr>)"
proof -
  obtain n cur where r: "read_varint c = Inr (n, cur)"
    using assms by (auto simp: frame_wire_len_hdr split: sum.splits if_splits)
  have b: "unat n \<le> length cur" "tot \<le> 6 + length c" "length c - length cur + 6 + unat n \<le> tot"
    using assms r read_varint_length [OF r]
    by (auto simp: frame_wire_len_hdr split: if_splits)
  have "try_decode_frame (MAGIC @ t # fl # c) =
       Inr (Some \<lparr>frame_type = t, frame_flags = fl, frame_payload = take (unat n) cur\<rparr>)"
    using assms r b by (simp add: try_decode_frame_def nth_append)
  with r b show thesis by (rule that)
qed

text \<open>What a successful length computation promises the reader.\<close>

lemma frame_wire_len_bounds:
  assumes "frame_wire_len buf = Inr (Some tot)"
  shows "7 \<le> tot" "tot \<le> length buf"
proof -
  have "6 \<le> length buf" "take 4 buf = MAGIC"
    using assms by (auto simp: frame_wire_len_def split: if_splits)
  then obtain t fl c where buf: "buf = MAGIC @ t # fl # c" by (rule frame_buf_split)
  from assms [unfolded buf] obtain n cur where r: "read_varint c = Inr (n, cur)"
    and b: "tot \<le> 6 + length c" "length c - length cur + 6 + unat n \<le> tot"
    by (rule try_decode_frame_hdr)
  show "7 \<le> tot" "tot \<le> length buf"
    using b read_varint_length [OF r] buf by auto
qed

lemma frame_wire_len_Some_decodes:
  assumes "frame_wire_len buf = Inr (Some tot)"
  shows "\<exists>f. try_decode_frame buf = Inr (Some f)"
proof -
  have "6 \<le> length buf" "take 4 buf = MAGIC"
    using assms by (auto simp: frame_wire_len_def split: if_splits)
  then obtain t fl c where buf: "buf = MAGIC @ t # fl # c" by (rule frame_buf_split)
  from assms [unfolded buf] show ?thesis unfolding buf by (rule try_decode_frame_hdr) blast
qed

lemma try_decode_frame_Some:
  assumes "try_decode_frame buf = Inr (Some f)"
  obtains tot where "frame_wire_len buf = Inr (Some tot)" "7 \<le> tot" "tot \<le> length buf"
    "frame_consumed_len buf = Inr tot"
  using assms frame_wire_len_bounds
  by (auto simp: try_decode_frame_def frame_consumed_len_def split: option.splits if_splits)

lemma frame_wire_len_not_panics: "\<not> panics (frame_wire_len buf)"
proof (cases "6 \<le> length buf \<and> take 4 buf = MAGIC")
  case True
  then obtain t fl c where buf: "buf = MAGIC @ t # fl # c" using frame_buf_split by blast
  show ?thesis unfolding buf frame_wire_len_hdr by (auto split: sum.splits)
next
  case False
  then show ?thesis by (auto simp: frame_wire_len_def)
qed

lemma try_decode_frame_not_panics: "\<not> panics (try_decode_frame buf)"
proof (cases "frame_wire_len buf")
  case (Inl e)
  then show ?thesis using frame_wire_len_not_panics [of buf] by (simp add: try_decode_frame_def)
next
  case (Inr w)
  show ?thesis
  proof (cases w)
    case None
    then show ?thesis using Inr by (simp add: try_decode_frame_def)
  next
    case (Some tot)
    then show ?thesis using Inr frame_wire_len_Some_decodes [of buf tot] by auto
  qed
qed

lemma decode_frame_not_panics: "\<not> panics (decode_frame buf)"
  unfolding decode_frame_def
  by (intro not_panics_bindR frame_wire_len_not_panics try_decode_frame_not_panics
      not_panics_with_context)
    (auto dest!: frame_wire_len_bounds simp: with_context_def split: option.splits)


subsection \<open>Encoding and decoding\<close>

text \<open>
  A frame the encoder can be asked for: the padding flag agrees with the padding, the
  payload length fits a varint and the random source fills what it is given.
\<close>

definition pad_agrees :: "u8 \<Rightarrow> nat \<Rightarrow> bool" where
  "pad_agrees flags pad_len \<longleftrightarrow> pad_len > 0 \<or> flags AND FLAG_PADDING = 0"

definition frame_ok :: "(nat \<Rightarrow> bytes) \<Rightarrow> u8 \<Rightarrow> bytes \<Rightarrow> nat \<Rightarrow> bool" where
  "frame_ok fill flags p pad_len \<longleftrightarrow>
     pad_agrees flags pad_len \<and> length p < 2 ^ 62 \<and> (\<forall>n. length (fill n) = n)"

definition wire_flags :: "u8 \<Rightarrow> nat \<Rightarrow> u8" where
  "wire_flags flags pad_len = (if pad_len > 0 then flags OR FLAG_PADDING else flags)"

definition pad_part :: "(nat \<Rightarrow> bytes) \<Rightarrow> nat \<Rightarrow> bytes" where
  "pad_part fill pad_len =
     (if pad_len > 0 then of_nat (min pad_len 128) # fill (min pad_len 128) else [])"

lemma encode_frame_layout:
  "encode_frame fill t flags p n =
     MAGIC @ t # wire_flags flags n # write_varint (of_nat (length p)) @ p @ pad_part fill n"
  by (simp add: encode_frame_def wire_flags_def pad_part_def Let_def)

lemma wire_flags_padding:
  "pad_agrees flags n \<Longrightarrow> wire_flags flags n AND FLAG_PADDING \<noteq> 0 \<longleftrightarrow> n > 0"
proof -
  assume a: "pad_agrees flags n"
  have "(flags OR 1) AND 1 = (1 :: u8)"
    by (rule bit_word_eqI) (auto simp: bit_simps)
  with a show ?thesis
    by (auto simp: wire_flags_def pad_agrees_def FLAG_PADDING_def)
qed

lemma unat_pad_byte [simp]: "unat (of_nat (min n 128) :: u8) = min n 128"
  by (simp add: unat_of_nat)

lemma frame_wire_len_encode:
  assumes "frame_ok fill flags p n"
  shows "frame_wire_len (encode_frame fill t flags p n @ rest) =
     Inr (Some (length (encode_frame fill t flags p n)))"
  using assms wire_flags_padding [of flags n]
  by (cases "n > 0")
    (auto simp: encode_frame_layout frame_wire_len_hdr codec_simps frame_ok_def pad_part_def
      nth_append)

lemma try_decode_frame_encode:
  assumes "frame_ok fill flags p n"
  shows "try_decode_frame (encode_frame fill t flags p n @ rest) =
     Inr (Some \<lparr>frame_type = t, frame_flags = wire_flags flags n, frame_payload = p\<rparr>)"
proof -
  have w: "frame_wire_len (MAGIC @ t # wire_flags flags n #
      (write_varint (of_nat (length p)) @ p @ pad_part fill n @ rest)) =
      Inr (Some (length (encode_frame fill t flags p n)))"
    using frame_wire_len_encode [OF assms, of t rest] by (simp add: encode_frame_layout)
  have l: "length p < 2 ^ 62" using assms by (simp add: frame_ok_def)
  obtain m cur where m: "read_varint (write_varint (of_nat (length p)) @ p @ pad_part fill n @ rest) = Inr (m, cur)"
    and d: "try_decode_frame (MAGIC @ t # wire_flags flags n #
      (write_varint (of_nat (length p)) @ p @ pad_part fill n @ rest)) =
      Inr (Some \<lparr>frame_type = t, frame_flags = wire_flags flags n, frame_payload = take (unat m) cur\<rparr>)"
    using w by (rule try_decode_frame_hdr)
  have "unat m = length p" "cur = p @ pad_part fill n @ rest"
    using m l by (auto simp: codec_simps)
  with d show ?thesis by (simp add: encode_frame_layout)
qed

lemma decode_frame_encode [codec_simps]:
  assumes "frame_ok fill flags p n"
  shows "decode_frame (encode_frame fill t flags p n @ rest) =
     Inr (\<lparr>frame_type = t, frame_flags = wire_flags flags n, frame_payload = p\<rparr>, rest)"
  by (simp add: decode_frame_def frame_wire_len_encode [OF assms] try_decode_frame_encode [OF assms])

lemma decode_frame_consumes: "decode_frame buf = Inr (f, r) \<Longrightarrow> length r < length buf"
proof -
  assume "decode_frame buf = Inr (f, r)"
  then obtain tot where "frame_wire_len buf = Inr (Some tot)" "slice_from tot buf = Inr r"
    by (auto simp: decode_frame_def with_context_def split: option.splits)
  then show ?thesis using frame_wire_len_bounds [of buf tot] by auto
qed

lemma wire_flags_idem:
  "flags AND FLAG_PADDING \<noteq> 0 \<longleftrightarrow> n > 0 \<Longrightarrow> wire_flags flags n = flags"
proof -
  assume a: "flags AND FLAG_PADDING \<noteq> 0 \<longleftrightarrow> n > 0"
  have "bit flags 0" if "flags AND 1 \<noteq> 0"
    using that by (metis and_one_eq bit_0 mod2_eq_if of_bool_eq(1) one_mod_two_eq_one zero_neq_one)
  then have "flags OR 1 = flags" if "flags AND 1 \<noteq> 0"
    using that by (intro bit_word_eqI) (auto simp: bit_simps)
  with a show ?thesis by (auto simp: wire_flags_def FLAG_PADDING_def)
qed

text \<open>
  Frames written with the flag that matches their padding form a self-delimiting code,
  for each random source and padding length.
\<close>

interpretation frame: consuming_codec
  "\<lambda>f. encode_frame fill (frame_type f) (frame_flags f) (frame_payload f) n"
  decode_frame
  "\<lambda>f. frame_ok fill (frame_flags f) (frame_payload f) n \<and>
     (frame_flags f AND FLAG_PADDING \<noteq> 0 \<longleftrightarrow> n > 0)"
  for fill :: "nat \<Rightarrow> bytes" and n :: nat
  by unfold_locales
    (simp_all add: decode_frame_encode wire_flags_idem decode_frame_consumes)

text \<open>
  C10: A frame written by the encoder and followed by any bytes is decoded to the same
  type and payload, with the padding flag set exactly when padding was asked for, and
  the buffer is advanced by exactly the frame.
\<close>

theorem frame_roundtrip:
  assumes "frame_ok fill flags p pad_len"
  shows "decode_frame (encode_frame fill t flags p pad_len @ rest) =
     Inr (\<lparr>frame_type = t,
           frame_flags = (if pad_len > 0 then flags OR FLAG_PADDING else flags),
           frame_payload = p\<rparr>, rest)"
  using decode_frame_encode [OF assms] by (simp add: wire_flags_def)

theorem frame_roundtrip_witness:
  "decode_frame (encode_frame (\<lambda>n. replicate n 7) FRAME_AUTH_REQ 0 [1, 2, 3] 5 @ [9]) =
     Inr (\<lparr>frame_type = FRAME_AUTH_REQ, frame_flags = FLAG_PADDING, frame_payload = [1, 2, 3]\<rparr>, [9])"
proof -
  have "frame_ok (\<lambda>n. replicate n 7) 0 [1, 2, 3] 5"
    by (simp add: frame_ok_def pad_agrees_def)
  from frame_roundtrip [OF this, of FRAME_AUTH_REQ "[9]"] show ?thesis by simp
qed

subsection \<open>Incomplete frames\<close>

lemma frame_wire_len_prefix:
  assumes "frame_ok fill flags p n" "6 < k" "k < length (encode_frame fill t flags p n)"
  shows "frame_wire_len (take k (encode_frame fill t flags p n)) = Inr None"
proof -
  let ?v = "write_varint (of_nat (length p))"
  have k: "take k (encode_frame fill t flags p n) =
      MAGIC @ t # wire_flags flags n # take (k - 6) (?v @ p @ pad_part fill n)"
    using assms(2) by (simp add: encode_frame_layout take_Cons')
  show ?thesis
  proof (cases "k - 6 < length ?v")
    case True
    then show ?thesis
      using assms(2) by (simp add: k frame_wire_len_hdr read_varint_truncated)
  next
    case False
    define j where "j = k - 6 - length ?v"
    have j: "j < length p + length (pad_part fill n)"
      using assms(2,3) False by (simp add: j_def encode_frame_layout)
    have "take (k - 6) (?v @ p @ pad_part fill n) = ?v @ take j (p @ pad_part fill n)"
      using False by (simp add: j_def)
    then show ?thesis
      using j assms(1) wire_flags_padding [of flags n]
      by (auto simp: k frame_wire_len_hdr codec_simps frame_ok_def pad_part_def nth_append
          split: if_splits)
  qed
qed



text \<open>
  The exception: a buffer that holds exactly the six header bytes before the length
  is an error (\<^verbatim>\<open>empty varint\<close>), not an incomplete frame, because only messages that contain
  \<^verbatim>\<open>truncated\<close> are treated as incomplete. A peer whose frame is split there has its control
  stream closed.
\<close>

theorem frame_six_bytes_error:
  "try_decode_frame (take 6 (encode_frame fill t flags p pad_len)) = Inl (Err ''empty varint'')"
proof -
  have "take 6 (encode_frame fill t flags p pad_len) = MAGIC @ [t, wire_flags flags pad_len]"
    by (simp add: encode_frame_layout)
  then show ?thesis by (simp add: try_decode_frame_def frame_wire_len_hdr)
qed


section \<open>TCP open and reply\<close>

text \<open>
  The server reads back the target address the client asked for, whatever padding
  was chosen, and leaves the bytes that follow the open frame in the buffer.
\<close>

theorem tcp_open_roundtrip:
  assumes "valid_str target" "length target < 2 ^ 62" "\<forall>n. length (fill n) = n"
  shows "decode_tcp_open (encode_tcp_open fill target pad_len @ rest) = Inr (target, rest)"
proof -
  have "frame_ok fill 0 (as_bytes target) pad_len"
    using assms by (simp add: frame_ok_def pad_agrees_def)
  with assms(1) show ?thesis
    by (simp add: decode_tcp_open_def encode_tcp_open_def decode_frame_encode)
qed

theorem tcp_open_roundtrip_witness:
  "decode_tcp_open (encode_tcp_open (\<lambda>n. replicate n 1) ''a.io:443'' 3 @ [42]) = Inr (''a.io:443'', [42])"
proof -
  have "valid_str ''a.io:443''" by (simp add: valid_str_def as_bytes_def)
  then show ?thesis by (rule tcp_open_roundtrip) simp_all
qed

lemma try_decode_tcp_reply_encode:
  assumes "frame_ok fill 0 p n"
  shows "try_decode_tcp_reply (encode_frame fill t 0 p n @ rest) =
     (if t = FRAME_TCP_OK then Inr (Some ReplyOk, rest)
      else if t = FRAME_TCP_ERR then
        Inr (Some (ReplyErr (case from_utf8 p of Some m \<Rightarrow> m | None \<Rightarrow> ''connect failed'')), rest)
      else Inl (Err ''unexpected tcp reply frame''))"
  by (simp add: try_decode_tcp_reply_def frame_wire_len_encode [OF assms]
      try_decode_frame_encode [OF assms])

text \<open>
  The client's reply parser: an OK frame and an error frame are recognised with
  their message and consumed exactly, and nothing is consumed while a reply is incomplete.
\<close>

theorem tcp_reply_cases:
  assumes "valid_str msg" "length msg < 2 ^ 62" "\<forall>n. length (fill n) = n"
  shows "try_decode_tcp_reply (encode_tcp_ok fill pad_len @ rest) = Inr (Some ReplyOk, rest) \<and>
    try_decode_tcp_reply (encode_tcp_err fill msg pad_len @ rest) = Inr (Some (ReplyErr msg), rest) \<and>
    (\<forall>buf buf'. try_decode_tcp_reply buf = Inr (None, buf') \<longrightarrow> buf' = buf)"
proof (intro conjI allI impI)
  have ok: "frame_ok fill 0 (as_bytes ''ok'') pad_len" "frame_ok fill 0 (as_bytes msg) pad_len"
    using assms by (simp_all add: frame_ok_def pad_agrees_def)
  show "try_decode_tcp_reply (encode_tcp_ok fill pad_len @ rest) = Inr (Some ReplyOk, rest)"
    by (simp add: encode_tcp_ok_def try_decode_tcp_reply_encode [OF ok(1)])
  show "try_decode_tcp_reply (encode_tcp_err fill msg pad_len @ rest) = Inr (Some (ReplyErr msg), rest)"
    using assms(1)
    by (simp add: encode_tcp_err_def try_decode_tcp_reply_encode [OF ok(2)] FRAME_TCP_OK_def
        FRAME_TCP_ERR_def)
  fix buf buf'
  assume "try_decode_tcp_reply buf = Inr (None, buf')"
  then show "buf' = buf"
    by (auto simp: try_decode_tcp_reply_def split: option.splits if_splits)
qed

theorem tcp_reply_cases_witness:
  "try_decode_tcp_reply (encode_tcp_err (\<lambda>n. replicate n 0) ''refused'' 4 @ [1]) =
     Inr (Some (ReplyErr ''refused''), [1])"
proof -
  have "valid_str ''refused''" by (simp add: valid_str_def as_bytes_def)
  from tcp_reply_cases [OF this, of "\<lambda>n. replicate n 0" 4 "[1]"] show ?thesis by simp
qed

text \<open>
  C19: No input makes the frame parsers panic: every index and slice they take is in
  range, for any bytes a peer sends.
\<close>

theorem rsq_parsers_never_panic:
  "\<not> panics (frame_consumed_len buf) \<and> \<not> panics (try_decode_frame buf) \<and>
   \<not> panics (decode_tcp_open buf) \<and> \<not> panics (try_decode_tcp_reply buf) \<and>
   \<not> panics (udp_decode buf)"
proof (intro conjI)
  show "\<not> panics (frame_consumed_len buf)"
    by (simp add: frame_consumed_len_def panics_bindR frame_wire_len_not_panics)
  show "\<not> panics (try_decode_frame buf)" by (rule try_decode_frame_not_panics)
  show "\<not> panics (decode_tcp_open buf)"
    by (auto simp: decode_tcp_open_def panics_bindR decode_frame_not_panics split: if_splits)
  have "\<not> panics (slice_from tot buf)" if "frame_wire_len buf = Inr (Some tot)" for tot
    using frame_wire_len_bounds [OF that] by simp
  then show "\<not> panics (try_decode_tcp_reply buf)"
    unfolding try_decode_tcp_reply_def
    by (auto simp: panics_bindR frame_wire_len_not_panics try_decode_frame_not_panics
        split: option.splits if_splits)
  show "\<not> panics (udp_decode buf)"
    unfolding udp_decode_def Let_def
    by (auto simp: panics_bindR get_u8_eq_Inr_iff dest!: get_be_length split: if_splits)
qed


section \<open>UDP datagrams\<close>

lemma udp_decode_encode [codec_simps]:
  assumes "valid_str (msg_addr m)" "length (msg_addr m) < 2 ^ 62"
  shows "udp_decode (udp_encode m) = Inr m"
  using assms
  by (simp add: udp_decode_def udp_encode_def get_be_be_bytes codec_simps Let_def
      copy_to_bytes_append [of "as_bytes (msg_addr m)", simplified]
      copy_to_bytes_append [of _ "[]", simplified] del: be_bytes_numeral)

end
