(* ===== verification/Replay_Guard.thy ===== *)
theory Replay_Guard
  imports Rust_Prelude
begin

text \<open>
  The contract of a replay guard: a stateful check of a nonce at an instant that accepts a
  nonce and records it, and rejects it as long as it is live. What a client gets from the
  contract is proved once here, for any run of the guard over non-decreasing instants.
\<close>

fun run_guard :: "('t \<Rightarrow> 'n \<Rightarrow> 's \<Rightarrow> 'r res \<times> 's) \<Rightarrow> ('t \<times> 'n) list \<Rightarrow> 's \<Rightarrow> 'r res list \<times> 's" where
  "run_guard chk [] s = ([], s)"
| "run_guard chk ((t, n) # xs) s =
     (let (r, s1) = chk t n s; (rs, s2) = run_guard chk xs s1 in (r # rs, s2))"

lemma run_guard_length [simp]: "length (fst (run_guard chk xs s)) = length xs"
  by (induction xs arbitrary: s) (auto simp: split_beta Let_def)

lemma run_guard_append:
  "run_guard chk (xs @ ys) s =
     (let (r1, s1) = run_guard chk xs s; (r2, s2) = run_guard chk ys s1 in (r1 @ r2, s2))"
  by (induction xs arbitrary: s) (auto simp: split_beta Let_def)

locale replay_guard =
  fixes chk :: "nat \<Rightarrow> 'n \<Rightarrow> 's \<Rightarrow> 'r res \<times> 's"
    and key :: "'n \<Rightarrow> 'k"
    and recorded :: "'s \<Rightarrow> 'k \<Rightarrow> nat \<Rightarrow> bool"
    and live :: "nat \<Rightarrow> nat \<Rightarrow> bool"
  assumes accept_records: "chk now n s = (Inr u, s') \<Longrightarrow> recorded s' (key n) now"
    and record_kept: "recorded s k t \<Longrightarrow> live now t \<Longrightarrow> recorded (snd (chk now m s)) k t"
    and live_rejected: "recorded s (key n) t \<Longrightarrow> live now t \<Longrightarrow> fst (chk now n s) \<noteq> Inr u"
    and live_mono: "live now t \<Longrightarrow> t \<le> now' \<Longrightarrow> now' \<le> now \<Longrightarrow> live now' t"
begin

lemma run_keeps:
  "recorded s k t \<Longrightarrow> sorted (map fst xs) \<Longrightarrow> \<forall>x\<in>set xs. t \<le> fst x \<Longrightarrow> \<forall>x\<in>set xs. fst x \<le> now \<Longrightarrow>
     live now t \<Longrightarrow> recorded (snd (run_guard chk xs s)) k t"
proof (induction xs arbitrary: s)
  case (Cons x xs)
  obtain t1 m where x: "x = (t1, m)" by (cases x)
  have "live t1 t" using Cons.prems(3-5) live_mono x by auto
  then have "recorded (snd (chk t1 m s)) k t" by (rule record_kept [OF Cons.prems(1)])
  with Cons show ?case by (simp add: x split_beta)
qed simp

text \<open>Two accepted uses of one nonce are so far apart that the first is no longer live.\<close>

lemma accepted_twice_not_live:
  assumes run: "fst (run_guard chk (xs @ (t, n) # ys @ (t', n') # zs) s) = rs"
    and sorted: "sorted (map fst (xs @ (t, n) # ys @ (t', n') # zs))"
    and key: "key n = key n'"
    and acc: "rs ! length xs = Inr u" "rs ! (length xs + 1 + length ys) = Inr u'"
  shows "\<not> live t' t"
proof
  assume live: "live t' t"
  define s1 where "s1 = snd (run_guard chk xs s)"
  define s2 where "s2 = snd (chk t n s1)"
  define s3 where "s3 = snd (run_guard chk ys s2)"
  have first: "fst (chk t n s1) = Inr u" and second: "fst (chk t' n' s3) = Inr u'"
    using acc unfolding run [symmetric]
    by (simp_all add: run_guard_append split_beta s1_def s2_def s3_def nth_append)
  have "recorded s2 (key n) t"
    using first accept_records [of t n s1 u s2] by (simp add: s2_def prod_eq_iff)
  then have "recorded s3 (key n') t"
    unfolding s3_def key using live sorted
    by (intro run_keeps) (auto simp: sorted_append)
  from live_rejected [OF this live] second show False by blast
qed

end

end
