(* ===== verification/Rsq_Auth.thy ===== *)
theory Rsq_Auth
  imports Rsq_Protocol Rust_Strings Replay_Guard "HOL-Library.AList"
begin

text \<open>
  Authentication of the RSQ control stream (\<^verbatim>\<open>rsb-protocol/src/rsq/auth.rs\<close>) with the
  traffic profiles it sends (\<^verbatim>\<open>rsq/traffic.rs\<close>). HMAC-SHA256 is the parameter
  \<open>hmac\<close> of key and data. Wall-clock seconds are \<open>u64\<close> words, monotonic instants are
  nanoseconds as \<open>nat\<close>; random values are arguments.
\<close>

section \<open>Definitions\<close>

definition MBPS_TO_BPS :: u64 where "MBPS_TO_BPS = 125000"
definition AUTH_MAX_SKEW_SECS :: u64 where "AUTH_MAX_SKEW_SECS = 120"
definition REPLAY_TTL_SECS :: u64 where "REPLAY_TTL_SECS = AUTH_MAX_SKEW_SECS"

subsection \<open>Traffic profiles\<close>

datatype TrafficProfile = Raw | Video | Browse | Balanced

definition from_name :: "string \<Rightarrow> TrafficProfile" where
  "from_name v =
     (let n = to_ascii_lowercase v in
      if n = ''raw'' then Raw else if n = ''browse'' then Browse
      else if n = ''balanced'' then Balanced else Video)"

definition parse_profile :: "string option \<Rightarrow> TrafficProfile" where
  "parse_profile raw = (case raw of None \<Rightarrow> Video | Some v \<Rightarrow> from_name v)"

definition from_id :: "u8 \<Rightarrow> TrafficProfile" where
  "from_id i = (if i = 0 then Raw else if i = 1 then Video else if i = 2 then Browse
     else if i = 3 then Balanced else Video)"

fun profile_id :: "TrafficProfile \<Rightarrow> u8" where
  "profile_id Raw = 0"
| "profile_id Video = 1"
| "profile_id Browse = 2"
| "profile_id Balanced = 3"

fun default_up_bps :: "TrafficProfile \<Rightarrow> u64" where
  "default_up_bps Raw = 0"
| "default_up_bps Video = 50 * MBPS_TO_BPS"
| "default_up_bps Browse = 10 * MBPS_TO_BPS"
| "default_up_bps Balanced = 80 * MBPS_TO_BPS"

definition keepalive_jitter_base_secs :: "TrafficProfile \<Rightarrow> u64" where
  "keepalive_jitter_base_secs p = (case p of Browse \<Rightarrow> 25 | _ \<Rightarrow> 20)"

fun read_chunk_size :: "TrafficProfile \<Rightarrow> nat" where
  "read_chunk_size Raw = 64 * 1024"
| "read_chunk_size Video = 32 * 1024"
| "read_chunk_size Browse = 8 * 1024"
| "read_chunk_size Balanced = 16 * 1024"

definition pace_relay_copy :: "TrafficProfile \<Rightarrow> bool" where
  "pace_relay_copy p \<longleftrightarrow> p = Browse"

text \<open>The delay in milliseconds; \<open>r\<close> is the random \<^verbatim>\<open>u64\<close>.\<close>

definition inter_chunk_delay :: "u64 \<Rightarrow> TrafficProfile \<Rightarrow> u64" where
  "inter_chunk_delay r p =
     (let max_ms = (case p of Browse \<Rightarrow> 12 | _ \<Rightarrow> 0) in
      if max_ms = 0 then 0 else r mod (max_ms + 1))"

text \<open>
  The keep-alive interval in seconds; \<open>r\<close> is the random \<^verbatim>\<open>i64\<close>. Rust's \<open>%\<close> on signed
  integers takes the sign of the dividend, so its absolute value is the remainder of the
  absolute values. The callers pass at most 25, for which nothing overflows.
\<close>

definition jitter_duration :: "int \<Rightarrow> nat \<Rightarrow> nat" where
  "jitter_duration r base_secs =
     (let jitter = nat (\<bar>r\<bar> mod (int base_secs * 30 div 100 + 1)) in base_secs + max jitter 1)"

subsection \<open>Replay cache\<close>

record AuthReplayCache =
  seen :: "(bytes \<times> nat) list"

definition replay_default :: AuthReplayCache where
  "replay_default = \<lparr>seen = []\<rparr>"

definition NANOS :: nat where "NANOS = 10 ^ 9"

definition check_and_insert :: "nat \<Rightarrow> bytes \<Rightarrow> AuthReplayCache \<Rightarrow> unit res \<times> AuthReplayCache" where
  "check_and_insert now nonce c =
     (let live = filter (\<lambda>(_, t). (now - t) div NANOS \<le> unat REPLAY_TTL_SECS) (seen c) in
      if nonce \<in> set (map fst live) then (Inl (Err ''auth replay detected''), c\<lparr>seen := live\<rparr>)
      else (Inr (), c\<lparr>seen := AList.update nonce now live\<rparr>))"

subsection \<open>Requests and replies\<close>

definition auth_key :: "(bytes \<Rightarrow> bytes \<Rightarrow> bytes) \<Rightarrow> string \<Rightarrow> bytes" where
  "auth_key hmac password = take 32 (hmac (as_bytes password) (as_bytes ''rsq-auth-v1''))"

definition compute_proof :: "(bytes \<Rightarrow> bytes \<Rightarrow> bytes) \<Rightarrow> bytes \<Rightarrow> bytes \<Rightarrow> bytes" where
  "compute_proof hmac key data = take 32 (hmac key data)"

definition auth_req_body ::
  "(bytes \<Rightarrow> bytes \<Rightarrow> bytes) \<Rightarrow> bytes \<Rightarrow> u64 \<Rightarrow> string \<Rightarrow> u32 \<Rightarrow> u32 \<Rightarrow> TrafficProfile \<Rightarrow> bytes" where
  "auth_req_body hmac client_random timestamp password down_mbps up_mbps profile =
     (let rx_bps = (if down_mbps = 0 then 0 else ucast down_mbps * MBPS_TO_BPS);
          up_bps = (if up_mbps = 0 then default_up_bps profile else ucast up_mbps * MBPS_TO_BPS);
          body = [1] @ client_random @ be_bytes 8 timestamp @ write_varint rx_bps @
                 write_varint up_bps @ [profile_id profile] in
      body @ compute_proof hmac (auth_key hmac password) body)"

definition encode_auth_req ::
  "(nat \<Rightarrow> bytes) \<Rightarrow> u32 \<Rightarrow> (bytes \<Rightarrow> bytes \<Rightarrow> bytes) \<Rightarrow> bytes \<Rightarrow> u64 \<Rightarrow> string \<Rightarrow> u32 \<Rightarrow> u32 \<Rightarrow> TrafficProfile \<Rightarrow> bytes" where
  "encode_auth_req fill r hmac client_random timestamp password down_mbps up_mbps profile =
     encode_frame fill FRAME_AUTH_REQ 0
       (auth_req_body hmac client_random timestamp password down_mbps up_mbps profile)
       (random_pad_len r 32 128)"

record AuthOk =
  ok_session_id :: u32
  server_rx_bps :: u64
  udp_enabled :: bool

record AuthClientCaps =
  client_rx_bps :: u64
  client_up_bps :: u64
  caps_profile :: TrafficProfile

definition abs_diff :: "u64 \<Rightarrow> u64 \<Rightarrow> u64" where
  "abs_diff a b = (if a < b then b - a else a - b)"

text \<open>
  The loop over the configured passwords. A replayed nonce makes the whole verification
  fail, also when a later password would match.
\<close>

fun try_passwords ::
  "(bytes \<Rightarrow> bytes \<Rightarrow> bytes) \<Rightarrow> nat \<Rightarrow> bytes \<Rightarrow> bytes \<Rightarrow> bytes \<Rightarrow> AuthClientCaps \<Rightarrow> string list \<Rightarrow>
   AuthReplayCache option \<Rightarrow> (string \<times> AuthClientCaps) res \<times> AuthReplayCache option" where
  "try_passwords hmac inst client_random signed_part prf caps [] replay = (Inl (Err ''auth failed''), replay)"
| "try_passwords hmac inst client_random signed_part prf caps (password # ps) replay =
     (if compute_proof hmac (auth_key hmac password) signed_part = prf then
        (case replay of
           None \<Rightarrow> (Inr (password, caps), replay)
         | Some cache \<Rightarrow>
             (case check_and_insert inst client_random cache of
                (Inl e, cache') \<Rightarrow> (Inl e, Some cache')
              | (Inr _, cache') \<Rightarrow> (Inr (password, caps), Some cache')))
      else try_passwords hmac inst client_random signed_part prf caps ps replay)"

text \<open>
  The header of a request: version, client random, timestamp, the two rates, the profile.
  \<open>now\<close> is the wall clock.
\<close>

definition read_auth_req :: "u64 \<Rightarrow> DecodedFrame \<Rightarrow> (bytes \<times> u64 \<times> AuthClientCaps) res" where
  "read_auth_req now frame =
     (if frame_type frame \<noteq> FRAME_AUTH_REQ then Inl (Err ''expected AUTH_REQ'')
      else
        let body = frame_payload frame in
        if length body < 32 + 8 + 1 + 32 + 3 then Inl (Err ''auth req too short'')
        else
          bindR (get_u8 body) (\<lambda>(version, c).
          if version \<noteq> 1 then Inl (Err ''unsupported auth version'')
          else
            bindR (copy_to_bytes 32 c) (\<lambda>(client_random, c).
            bindR (get_u64 c) (\<lambda>(timestamp, c).
            if abs_diff timestamp now > AUTH_MAX_SKEW_SECS then Inl (Err ''auth timestamp skew'')
            else
              bindR (read_varint c) (\<lambda>(rx_bps, c).
              bindR (read_varint c) (\<lambda>(up_bps, c).
              bindR (get_u8 c) (\<lambda>(pid, c).
              if length c < 32 then Inl (Err ''missing auth proof'')
              else Inr (client_random, timestamp,
                \<lparr>client_rx_bps = rx_bps, client_up_bps = up_bps, caps_profile = from_id pid\<rparr>))))))))"

definition verify_auth_req ::
  "(bytes \<Rightarrow> bytes \<Rightarrow> bytes) \<Rightarrow> u64 \<Rightarrow> nat \<Rightarrow> DecodedFrame \<Rightarrow> string list \<Rightarrow> AuthReplayCache option \<Rightarrow>
   (string \<times> AuthClientCaps) res \<times> AuthReplayCache option" where
  "verify_auth_req hmac now inst frame passwords replay =
     (case read_auth_req now frame of
        Inl e \<Rightarrow> (Inl e, replay)
      | Inr (client_random, timestamp, caps) \<Rightarrow>
          (let body = frame_payload frame; proof_start = length body - 32 in
           try_passwords hmac inst client_random (take proof_start body) (drop proof_start body)
             caps passwords replay))"

definition encode_auth_ok :: "(nat \<Rightarrow> bytes) \<Rightarrow> u32 \<Rightarrow> u32 \<Rightarrow> u64 \<Rightarrow> bool \<Rightarrow> bytes" where
  "encode_auth_ok fill r sid rx udp =
     encode_frame fill FRAME_AUTH_OK 0
       ([1] @ be_bytes 4 sid @ write_varint rx @ [if udp then 1 else 0])
       (random_pad_len r 16 64)"

definition decode_auth_ok :: "DecodedFrame \<Rightarrow> AuthOk res" where
  "decode_auth_ok frame =
     (if frame_type frame \<noteq> FRAME_AUTH_OK then Inl (Err ''expected AUTH_OK'')
      else case frame_payload frame of
        [] \<Rightarrow> Inl (Err ''unsupported auth ok version'')
      | v # c \<Rightarrow>
          if v \<noteq> 1 then Inl (Err ''unsupported auth ok version'')
          else if length c < 4 then Inl (Err ''auth ok too short'')
          else
            bindR (get_u32 c) (\<lambda>(sid, c).
            bindR (read_varint c) (\<lambda>(rx, c).
            Inr \<lparr>ok_session_id = sid, server_rx_bps = rx,
                 udp_enabled = (case c of [] \<Rightarrow> False | b # _ \<Rightarrow> b \<noteq> 0)\<rparr>)))"


section \<open>The replay cache satisfies its contract\<close>

definition nonce_recorded :: "AuthReplayCache \<Rightarrow> bytes \<Rightarrow> nat \<Rightarrow> bool" where
  "nonce_recorded c n t \<longleftrightarrow> (n, t) \<in> set (seen c)"

definition nonce_live :: "nat \<Rightarrow> nat \<Rightarrow> bool" where
  "nonce_live now t \<longleftrightarrow> now - t < 121 * NANOS"

lemma NANOS_pos [simp]: "0 < NANOS"
  by (simp add: NANOS_def)

lemma unat_REPLAY_TTL [simp]: "unat REPLAY_TTL_SECS = 120"
  by (simp add: REPLAY_TTL_SECS_def AUTH_MAX_SKEW_SECS_def)

lemma nonce_live_iff: "(now - t) div NANOS \<le> 120 \<longleftrightarrow> nonce_live now t"
proof -
  have "(now - t) div NANOS \<le> 120 \<longleftrightarrow> (now - t) div NANOS < 121" by linarith
  also have "\<dots> \<longleftrightarrow> now - t < 121 * NANOS" by (rule div_less_iff_less_mult) simp
  finally show ?thesis by (simp add: nonce_live_def)
qed

lemma AList_update_new: "k \<notin> fst ` set al \<Longrightarrow> set (AList.update k v al) = insert (k, v) (set al)"
  by (induction al) auto

interpretation replay: replay_guard check_and_insert "\<lambda>n. n" nonce_recorded nonce_live
proof unfold_locales
  fix now t now' :: nat and n m :: bytes and s s' :: AuthReplayCache and u :: unit
  show "nonce_recorded s' n now" if "check_and_insert now n s = (Inr u, s')"
    using that by (auto simp: check_and_insert_def nonce_recorded_def AList_update_new Let_def split: if_splits)
  show "nonce_recorded (snd (check_and_insert now m s)) n t"
    if "nonce_recorded s n t" "nonce_live now t"
    using that
    by (auto simp: check_and_insert_def nonce_recorded_def AList_update_new Let_def nonce_live_iff)
  show "fst (check_and_insert now n s) \<noteq> Inr u"
    if "nonce_recorded s n t" "nonce_live now t"
  proof -
    have "(n, t) \<in> set (filter (\<lambda>(_, t). (now - t) div NANOS \<le> unat REPLAY_TTL_SECS) (seen s))"
      using that by (simp add: nonce_recorded_def nonce_live_iff)
    then have "n \<in> set (map fst (filter (\<lambda>(_, t). (now - t) div NANOS \<le> unat REPLAY_TTL_SECS) (seen s)))"
      by (metis fst_conv image_eqI list.set_map)
    then show ?thesis by (simp add: check_and_insert_def Let_def)
  qed
  show "nonce_live now' t" if "nonce_live now t" "t \<le> now'" "now' \<le> now"
    using that by (auto simp: nonce_live_def)
qed


text \<open>The verifier as a guard of the client random, with a cache that is always present.\<close>

definition verify_cached ::
  "(bytes \<Rightarrow> bytes \<Rightarrow> bytes) \<Rightarrow> string list \<Rightarrow> nat \<Rightarrow> u64 \<times> DecodedFrame \<Rightarrow> AuthReplayCache \<Rightarrow>
   (string \<times> AuthClientCaps) res \<times> AuthReplayCache" where
  "verify_cached hmac passwords inst x c =
     (case verify_auth_req hmac (fst x) inst (snd x) passwords (Some c) of
        (r, Some c') \<Rightarrow> (r, c') | (r, None) \<Rightarrow> (r, c))"

definition frame_nonce :: "DecodedFrame \<Rightarrow> bytes" where
  "frame_nonce f = take 32 (drop 1 (frame_payload f))"

lemma copy_to_bytes_eq_Inr_iff:
  "copy_to_bytes n b = Inr (x, r) \<longleftrightarrow> n \<le> length b \<and> x = take n b \<and> r = drop n b"
  by (auto simp: copy_to_bytes_def)

lemma read_auth_req_nonce:
  "read_auth_req now f = Inr (n, ts, caps) \<Longrightarrow> n = frame_nonce f"
  by (auto simp: read_auth_req_def Let_def frame_nonce_def get_u8_eq_Inr_iff copy_to_bytes_eq_Inr_iff
      split: if_splits)

lemma read_auth_req_header:
  assumes "read_auth_req now f = Inr (n, ts, caps)"
  shows "frame_type f = FRAME_AUTH_REQ" "abs_diff ts now \<le> AUTH_MAX_SKEW_SECS"
  using assms by (auto simp: read_auth_req_def Let_def split: if_splits)

lemma try_passwords_cases:
  "try_passwords hmac inst n sp prf caps ps (Some c) =
     (if \<exists>p\<in>set ps. compute_proof hmac (auth_key hmac p) sp = prf
      then (case check_and_insert inst n c of
              (Inl e, c') \<Rightarrow> (Inl e, Some c')
            | (Inr _, c') \<Rightarrow>
                (Inr (the (find (\<lambda>p. compute_proof hmac (auth_key hmac p) sp = prf) ps), caps), Some c'))
      else (Inl (Err ''auth failed''), Some c))"
  by (induction ps) (auto split: prod.splits sum.splits)

definition proof_matches :: "(bytes \<Rightarrow> bytes \<Rightarrow> bytes) \<Rightarrow> DecodedFrame \<Rightarrow> string \<Rightarrow> bool" where
  "proof_matches hmac f p \<longleftrightarrow>
     (let k = length (frame_payload f) - 32 in
      compute_proof hmac (auth_key hmac p) (take k (frame_payload f)) = drop k (frame_payload f))"

lemma verify_cached_eq:
  assumes "read_auth_req now f = Inr (n, ts, caps)"
  shows "verify_cached hmac ps inst (now, f) c =
    (if \<exists>p\<in>set ps. proof_matches hmac f p
     then (case check_and_insert inst (frame_nonce f) c of
             (Inl e, c') \<Rightarrow> (Inl e, c')
           | (Inr _, c') \<Rightarrow> (Inr (the (find (proof_matches hmac f) ps), caps), c'))
     else (Inl (Err ''auth failed''), c))"
  using assms read_auth_req_nonce [OF assms]
  by (simp add: verify_cached_def verify_auth_req_def try_passwords_cases Let_def proof_matches_def [abs_def]
      split: prod.split sum.split)

lemma verify_cached_cases:
  obtains (header) e where "verify_cached hmac ps inst x c = (Inl e, c)"
  | (replayed) e c' where "check_and_insert inst (frame_nonce (snd x)) c = (Inl e, c')"
      "verify_cached hmac ps inst x c = (Inl e, c')"
  | (accepted) c' r where "check_and_insert inst (frame_nonce (snd x)) c = (Inr (), c')"
      "verify_cached hmac ps inst x c = (Inr r, c')"
proof (cases "read_auth_req (fst x) (snd x)")
  case (Inl e)
  then show thesis using header by (simp add: verify_cached_def verify_auth_req_def)
next
  case (Inr y)
  then obtain n ts caps where "read_auth_req (fst x) (snd x) = Inr (n, ts, caps)" by (cases y) auto
  note eq = verify_cached_eq [OF this, of hmac ps inst c, simplified]
  show thesis
  proof (cases "\<exists>p\<in>set ps. proof_matches hmac (snd x) p")
    case True
    then show thesis using eq replayed accepted
      by (cases "check_and_insert inst (frame_nonce (snd x)) c"; cases "fst (check_and_insert inst (frame_nonce (snd x)) c)")
        auto
  next
    case False
    with eq header show thesis by simp
  qed
qed

interpretation verifier: replay_guard "verify_cached hmac passwords" "\<lambda>x. frame_nonce (snd x)"
  nonce_recorded nonce_live
  for hmac passwords
proof unfold_locales
  fix now t now' :: nat and n m :: "u64 \<times> DecodedFrame" and k :: bytes
    and s s' :: AuthReplayCache and u :: "string \<times> AuthClientCaps"
  show "nonce_recorded s' (frame_nonce (snd n)) now" if "verify_cached hmac passwords now n s = (Inr u, s')"
    using that by (cases rule: verify_cached_cases [of hmac passwords now n s])
      (auto intro: replay.accept_records)
  show "nonce_recorded (snd (verify_cached hmac passwords now m s)) k t"
    if "nonce_recorded s k t" "nonce_live now t"
    using that replay.record_kept [OF that]
    by (cases rule: verify_cached_cases [of hmac passwords now m s]) (auto simp: prod_eq_iff)
  show "fst (verify_cached hmac passwords now n s) \<noteq> Inr u"
    if "nonce_recorded s (frame_nonce (snd n)) t" "nonce_live now t"
    using replay.live_rejected [OF that]
    by (cases rule: verify_cached_cases [of hmac passwords now n s]) (auto simp: prod_eq_iff)
  show "nonce_live now' t" if "nonce_live now t" "t \<le> now'" "now' \<le> now"
    using that by (rule replay.live_mono)
qed


section \<open>Requests of an honest client\<close>

lemma length_write_varint: "1 \<le> length (write_varint v) \<and> length (write_varint v) \<le> 8"
  using read_varint_length [of "write_varint v" _ "[]"] read_write_varint [of v "[]"]
  by (auto simp: Suc_le_eq)

definition rate_of :: "u32 \<Rightarrow> u64" where
  "rate_of mbps = ucast mbps * MBPS_TO_BPS"

lemma rate_of_exact: "unat (rate_of mbps) = unat mbps * 125000"
proof -
  have "unat mbps < 2 ^ 32" using unsigned_less [of mbps] by simp
  then have "unat mbps * 125000 < 2 ^ 64" by simp
  then show ?thesis
    by (simp add: rate_of_def MBPS_TO_BPS_def unat_word_ariths unsigned_ucast_eq take_bit_nat_eq_self_iff
        take_bit_nat_eq_self less_trans [OF \<open>unat mbps < 2 ^ 32\<close>])
qed

lemma rate_of_small: "take_bit 62 (rate_of mbps) = rate_of mbps"
proof -
  have "unat mbps < 2 ^ 32" using unsigned_less [of mbps] by simp
  then have "unat (rate_of mbps) < 2 ^ 62" by (simp add: rate_of_exact)
  then show ?thesis by (simp add: take_bit_small word_less_nat_alt)
qed

lemma default_up_small: "take_bit 62 (default_up_bps p) = default_up_bps p"
  by (cases p) (simp_all add: MBPS_TO_BPS_def)

lemma from_id_profile_id [simp]: "from_id (profile_id p) = p"
  by (cases p) (simp_all add: from_id_def)

definition caps_of :: "u32 \<Rightarrow> u32 \<Rightarrow> TrafficProfile \<Rightarrow> AuthClientCaps" where
  "caps_of down up p = \<lparr>client_rx_bps = rate_of down,
     client_up_bps = (if up = 0 then default_up_bps p else rate_of up), caps_profile = p\<rparr>"

definition auth_req_signed :: "bytes \<Rightarrow> u64 \<Rightarrow> u32 \<Rightarrow> u32 \<Rightarrow> TrafficProfile \<Rightarrow> bytes" where
  "auth_req_signed rnd ts down up p =
     1 # rnd @ be_bytes 8 ts @ write_varint (client_rx_bps (caps_of down up p)) @
       write_varint (client_up_bps (caps_of down up p)) @ [profile_id p]"

lemma auth_req_body_signed:
  "auth_req_body hmac rnd ts pw down up p =
     auth_req_signed rnd ts down up p @
       compute_proof hmac (auth_key hmac pw) (auth_req_signed rnd ts down up p)"
  by (simp add: auth_req_body_def auth_req_signed_def Let_def caps_of_def rate_of_def)

lemma length_auth_req_signed:
  "length rnd = 32 \<Longrightarrow> 44 \<le> length (auth_req_signed rnd ts down up p) \<and>
     length (auth_req_signed rnd ts down up p) \<le> 58"
  using length_write_varint [of "client_rx_bps (caps_of down up p)"]
    length_write_varint [of "client_up_bps (caps_of down up p)"]
  by (simp add: auth_req_signed_def)

lemma read_auth_req_ok:
  assumes "length rnd = 32" "length prf = 32" "abs_diff ts now \<le> AUTH_MAX_SKEW_SECS"
  shows "read_auth_req now \<lparr>frame_type = FRAME_AUTH_REQ, frame_flags = fl,
      frame_payload = auth_req_signed rnd ts down up p @ prf\<rparr> = Inr (rnd, ts, caps_of down up p)"
proof -
  have "76 \<le> length (auth_req_signed rnd ts down up p @ prf)"
    using length_auth_req_signed [OF assms(1)] assms(2) by simp
  moreover have "take_bit 62 (client_rx_bps (caps_of down up p)) = client_rx_bps (caps_of down up p)"
    "take_bit 62 (client_up_bps (caps_of down up p)) = client_up_bps (caps_of down up p)"
    by (simp_all add: caps_of_def rate_of_small default_up_small)
  ultimately show ?thesis
    using assms
    by (simp add: read_auth_req_def Let_def auth_req_signed_def get_u8_Cons copy_to_bytes_append [of rnd, simplified assms(1)]
        get_be_be_bytes read_write_varint del: be_bytes_numeral)
       (simp add: caps_of_def)
qed


lemma frame_ok_auth:
  assumes "\<forall>n. length (fill n) = n" "\<forall>k d. length (hmac k d) = 32" "length rnd = 32"
  shows "frame_ok fill 0 (auth_req_body hmac rnd ts pw down up p) (random_pad_len r 32 128)"
  using assms length_auth_req_signed [OF assms(3), of ts down up p]
  by (simp add: frame_ok_def pad_agrees_def random_pad_len_def auth_req_body_signed compute_proof_def)

lemma encode_auth_req_decoded:
  assumes "\<forall>n. length (fill n) = n" "\<forall>k d. length (hmac k d) = 32" "length rnd = 32"
  shows "try_decode_frame (encode_auth_req fill r hmac rnd ts pw down up p @ rest) =
    Inr (Some \<lparr>frame_type = FRAME_AUTH_REQ, frame_flags = FLAG_PADDING,
       frame_payload = auth_req_body hmac rnd ts pw down up p\<rparr>)"
  unfolding encode_auth_req_def try_decode_frame_encode [OF frame_ok_auth [OF assms]]
  by (simp add: wire_flags_def random_pad_len_def)

lemma proof_matches_body:
  assumes "\<forall>k d. length (hmac k d) = 32"
  shows "proof_matches hmac \<lparr>frame_type = t, frame_flags = fl,
      frame_payload = auth_req_body hmac rnd ts pw down up p\<rparr> q \<longleftrightarrow>
    compute_proof hmac (auth_key hmac q) (auth_req_signed rnd ts down up p) =
    compute_proof hmac (auth_key hmac pw) (auth_req_signed rnd ts down up p)"
  using assms by (simp add: proof_matches_def auth_req_body_signed compute_proof_def Let_def)

lemma find_unique: "x \<in> set xs \<Longrightarrow> P x \<Longrightarrow> \<forall>y\<in>set xs. P y \<longrightarrow> y = x \<Longrightarrow> find P xs = Some x"
  by (metis find_SomeD find_None_iff option.exhaust)

lemma check_and_insert_fresh:
  "n \<notin> fst ` set (seen c) \<Longrightarrow> \<exists>c'. check_and_insert now n c = (Inr (), c')"
  by (auto simp: check_and_insert_def Let_def)

text \<open>
  C16: What an honest client sends is accepted: if the clocks differ by at most 120 seconds,
  the client random is fresh and no other configured password gives the same proof, then
  the server decodes the request, identifies the password among all configured ones and
  learns exactly the rates and the profile the client announced (down and up rates times
  125000 without overflow, the profile's default where the up rate is 0).
\<close>
theorem auth_req_accepted:
  assumes "\<forall>n. length (fill n) = n" "\<forall>k d. length (hmac k d) = 32" "length rnd = 32"
    and "abs_diff ts now \<le> AUTH_MAX_SKEW_SECS" "pw \<in> set passwords"
    and "\<forall>q\<in>set passwords. compute_proof hmac (auth_key hmac q) (auth_req_signed rnd ts down up p) =
       compute_proof hmac (auth_key hmac pw) (auth_req_signed rnd ts down up p) \<longrightarrow> q = pw"
    and "rnd \<notin> fst ` set (seen c)"
  shows "\<exists>f. try_decode_frame (encode_auth_req fill r hmac rnd ts pw down up p @ rest) = Inr (Some f) \<and>
    (\<exists>caps. fst (verify_auth_req hmac now inst f passwords (Some c)) = Inr (pw, caps) \<and>
       unat (client_rx_bps caps) = unat down * 125000 \<and>
       (if up = 0 then client_up_bps caps = default_up_bps p else unat (client_up_bps caps) = unat up * 125000) \<and>
       caps_profile caps = p)"
proof -
  let ?f = "\<lparr>frame_type = FRAME_AUTH_REQ, frame_flags = FLAG_PADDING,
       frame_payload = auth_req_body hmac rnd ts pw down up p\<rparr>"
  have read: "read_auth_req now ?f = Inr (rnd, ts, caps_of down up p)"
    unfolding auth_req_body_signed by (rule read_auth_req_ok) (simp_all add: assms compute_proof_def)
  have find: "find (proof_matches hmac ?f) passwords = Some pw"
    using assms(5,6) by (intro find_unique) (simp_all add: proof_matches_body [OF assms(2)])
  then have ex: "\<exists>q\<in>set passwords. proof_matches hmac ?f q"
    using find_SomeD by metis
  obtain c' where c': "check_and_insert inst rnd c = (Inr (), c')"
    using check_and_insert_fresh [OF assms(7)] by blast
  have "frame_nonce ?f = rnd" using read_auth_req_nonce [OF read] by simp
  then have "verify_cached hmac passwords inst (now, ?f) c = (Inr (pw, caps_of down up p), c')"
    using verify_cached_eq [OF read, of hmac passwords inst c] ex c' find by simp
  then have "fst (verify_auth_req hmac now inst ?f passwords (Some c)) = Inr (pw, caps_of down up p)"
    by (auto simp: verify_cached_def split: prod.splits option.splits)
  then show ?thesis
    unfolding encode_auth_req_decoded [OF assms(1-3)]
    by (intro exI [of _ ?f] conjI refl exI [of _ "caps_of down up p"]) (simp_all add: caps_of_def rate_of_exact)
qed



text \<open>
  C5: Replay protection over whole histories: in any sequence of requests handled by one
  server in the order of its monotonic clock, starting with an empty cache, two accepted
  requests with the same client random are at least 121 seconds apart.
\<close>
theorem no_replay_within_121s:
  assumes "sorted (map fst (xs @ (t, x) # ys @ (t', x') # zs))"
    and "frame_nonce (snd x) = frame_nonce (snd x')"
    and "fst (run_guard (verify_cached hmac passwords) (xs @ (t, x) # ys @ (t', x') # zs) replay_default) = rs"
    and "rs ! length xs = Inr u" "rs ! (length xs + 1 + length ys) = Inr u'"
  shows "t + 121 * NANOS \<le> t'"
proof -
  have "\<not> nonce_live t' t"
    using verifier.accepted_twice_not_live [OF assms(3,1,2,4,5)] .
  moreover have "t \<le> t'" using assms(1) by (auto simp: sorted_append)
  ultimately show ?thesis by (auto simp: nonce_live_def NANOS_def)
qed

lemma check_and_insert_expired:
  assumes "\<forall>(n', t')\<in>set (seen c). n' = n \<longrightarrow> \<not> nonce_live t t'"
  shows "fst (check_and_insert t n c) = Inr ()"
  using assms by (auto simp: check_and_insert_def Let_def nonce_live_iff)

lemma verify_twice:
  assumes "\<forall>k d. length (hmac k d) = 32" "length rnd = 32"
    and "abs_diff ts now1 \<le> AUTH_MAX_SKEW_SECS" "abs_diff ts now2 \<le> AUTH_MAX_SKEW_SECS"
    and "t1 + 121 * NANOS \<le> t2"
    and f: "f = \<lparr>frame_type = FRAME_AUTH_REQ, frame_flags = FLAG_PADDING,
       frame_payload = auth_req_body hmac rnd ts pw down up p\<rparr>"
  shows "fst (run_guard (verify_cached hmac [pw]) [(t1, (now1, f)), (t2, (now2, f))] replay_default) =
     [Inr (pw, caps_of down up p), Inr (pw, caps_of down up p)]"
proof -
  have read: "read_auth_req now f = Inr (rnd, ts, caps_of down up p)"
    if "abs_diff ts now \<le> AUTH_MAX_SKEW_SECS" for now
    unfolding f auth_req_body_signed using that
    by (intro read_auth_req_ok) (simp_all add: assms compute_proof_def)
  have m: "proof_matches hmac f pw" by (simp add: f proof_matches_body [OF assms(1)])
  have n: "frame_nonce f = rnd" using read_auth_req_nonce [OF read [OF assms(3)]] by simp
  have c1: "check_and_insert t1 rnd replay_default = (Inr (), \<lparr>seen = [(rnd, t1)]\<rparr>)"
    by (simp add: check_and_insert_def replay_default_def)
  have "fst (check_and_insert t2 rnd \<lparr>seen = [(rnd, t1)]\<rparr>) = Inr ()"
    using assms(5) by (intro check_and_insert_expired) (auto simp: nonce_live_def)
  then obtain c2 where c2: "check_and_insert t2 rnd \<lparr>seen = [(rnd, t1)]\<rparr> = (Inr (), c2)"
    by (metis prod.collapse)
  show ?thesis
    using verify_cached_eq [OF read [OF assms(3)], of hmac "[pw]" t1 replay_default]
      verify_cached_eq [OF read [OF assms(4)], of hmac "[pw]" t2 "\<lparr>seen = [(rnd, t1)]\<rparr>"] m n c1 c2
    by simp
qed

text \<open>Concrete parameters for the witnesses.\<close>

definition zero_hmac :: "bytes \<Rightarrow> bytes \<Rightarrow> bytes" where
  "zero_hmac k d = replicate 32 0"

definition zero_fill :: "nat \<Rightarrow> bytes" where
  "zero_fill n = replicate n 0"

definition sample_req :: "u64 \<Rightarrow> DecodedFrame" where
  "sample_req ts = \<lparr>frame_type = FRAME_AUTH_REQ, frame_flags = FLAG_PADDING,
     frame_payload = auth_req_body zero_hmac (replicate 32 7) ts ''pw'' 100 0 Browse\<rparr>"

lemma length_zero [simp]: "length (zero_hmac k d) = 32" "length (zero_fill n) = n"
  by (simp_all add: zero_hmac_def zero_fill_def)

lemma sample_twice:
  "fst (run_guard (verify_cached zero_hmac [''pw''])
     [(0, (1000, sample_req 1100)), (121 * NANOS, (1121, sample_req 1100))] replay_default) =
   [Inr (''pw'', caps_of 100 0 Browse), Inr (''pw'', caps_of 100 0 Browse)]"
  by (rule verify_twice [where ts = 1100 and rnd = "replicate 32 7"])
    (simp_all add: sample_req_def abs_diff_def AUTH_MAX_SKEW_SECS_def word_less_nat_alt word_le_nat_alt)

theorem no_replay_within_121s_witness:
  "(0 :: nat) + 121 * NANOS \<le> 121 * NANOS \<and>
   fst (run_guard (verify_cached zero_hmac [''pw'']) ([] @ (0, (1000, sample_req 1100)) # [] @
     (121 * NANOS, (1121, sample_req 1100)) # []) replay_default) =
   [Inr (''pw'', caps_of 100 0 Browse), Inr (''pw'', caps_of 100 0 Browse)]"
proof
  show run: "fst (run_guard (verify_cached zero_hmac [''pw'']) ([] @ (0, (1000, sample_req 1100)) # [] @
     (121 * NANOS, (1121, sample_req 1100)) # []) replay_default) =
   [Inr (''pw'', caps_of 100 0 Browse), Inr (''pw'', caps_of 100 0 Browse)]"
    using sample_twice by simp
  show "(0 :: nat) + 121 * NANOS \<le> 121 * NANOS"
    by (rule no_replay_within_121s [OF _ _ run]) simp_all
qed

text \<open>
  C21: The cache forgets a client random after 121 seconds although the timestamp check
  alone would still accept the request for as long as the timestamp is less than 120 seconds
  old: a request whose timestamp lies in the future at its first arrival is accepted
  a second time, unchanged, as soon as 121 seconds have passed.
\<close>
theorem replay_after_cache_expiry:
  assumes "\<forall>k d. length (hmac k d) = 32" "length rnd = 32"
    and "abs_diff ts now1 \<le> AUTH_MAX_SKEW_SECS" "abs_diff ts now2 \<le> AUTH_MAX_SKEW_SECS"
    and "t1 + 121 * NANOS \<le> t2"
    and f: "f = \<lparr>frame_type = FRAME_AUTH_REQ, frame_flags = FLAG_PADDING,
       frame_payload = auth_req_body hmac rnd ts pw down up p\<rparr>"
  shows "fst (run_guard (verify_cached hmac [pw]) [(t1, (now1, f)), (t2, (now2, f))] replay_default) =
     [Inr (pw, caps_of down up p), Inr (pw, caps_of down up p)]"
  using assms by (rule verify_twice)

theorem replay_after_cache_expiry_witness:
  "fst (run_guard (verify_cached zero_hmac [''pw''])
     [(0, (1000, sample_req 1100)), (121 * NANOS, (1121, sample_req 1100))] replay_default) =
   [Inr (''pw'', caps_of 100 0 Browse), Inr (''pw'', caps_of 100 0 Browse)]"
  by (rule replay_after_cache_expiry [where ts = 1100 and rnd = "replicate 32 7"])
    (simp_all add: sample_req_def abs_diff_def AUTH_MAX_SKEW_SECS_def word_less_nat_alt word_le_nat_alt)

theorem auth_req_accepted_witness:
  "\<exists>f. try_decode_frame (encode_auth_req zero_fill 5 zero_hmac (replicate 32 7) 1000 ''pw'' 100 0 Browse @ [9]) = Inr (Some f) \<and>
    (\<exists>caps. fst (verify_auth_req zero_hmac 1010 3 f [''pw''] (Some replay_default)) = Inr (''pw'', caps) \<and>
       unat (client_rx_bps caps) = unat (100 :: u32) * 125000 \<and>
       (if (0 :: u32) = 0 then client_up_bps caps = default_up_bps Browse
        else unat (client_up_bps caps) = unat (0 :: u32) * 125000) \<and> caps_profile caps = Browse)"
  by (rule auth_req_accepted)
    (simp_all add: abs_diff_def AUTH_MAX_SKEW_SECS_def word_less_nat_alt word_le_nat_alt replay_default_def)


section \<open>Replies\<close>

text \<open>
  The reply the server sends on success is read back by the client with the same
  session, rate and UDP permission (the rate as far as 62 bits carry it), also when
  other bytes follow it in the buffer.
\<close>
theorem auth_ok_roundtrip:
  assumes "\<forall>n. length (fill n) = n"
  shows "\<exists>f. try_decode_frame (encode_auth_ok fill r sid rx udp @ rest) = Inr (Some f) \<and>
    decode_auth_ok f = Inr \<lparr>ok_session_id = sid, server_rx_bps = take_bit 62 rx, udp_enabled = udp\<rparr>"
proof -
  let ?b = "[1] @ be_bytes 4 sid @ write_varint rx @ [if udp then 1 else 0]"
  have "frame_ok fill 0 ?b (random_pad_len r 16 64)"
    using assms length_write_varint [of rx] by (simp add: frame_ok_def pad_agrees_def random_pad_len_def)
  note dec = try_decode_frame_encode [OF this, of FRAME_AUTH_OK rest]
  have "decode_auth_ok \<lparr>frame_type = FRAME_AUTH_OK, frame_flags = fl, frame_payload = ?b\<rparr> =
      Inr \<lparr>ok_session_id = sid, server_rx_bps = take_bit 62 rx, udp_enabled = udp\<rparr>" for fl
    by (simp add: decode_auth_ok_def get_be_be_bytes read_write_varint del: be_bytes_numeral)
  with dec show ?thesis unfolding encode_auth_ok_def by blast
qed

theorem auth_ok_roundtrip_witness:
  "\<exists>f. try_decode_frame (encode_auth_ok zero_fill 5 42 12500000 True @ [9]) = Inr (Some f) \<and>
    decode_auth_ok f = Inr \<lparr>ok_session_id = 42, server_rx_bps = take_bit 62 12500000, udp_enabled = True\<rparr>"
  by (rule auth_ok_roundtrip) simp

lemma panics_get_u8 [simp]: "panics (get_u8 b) \<longleftrightarrow> b = []"
  by (cases b) (auto simp: get_u8_def)

lemma read_auth_req_not_panics: "\<not> panics (read_auth_req now f)"
  by (auto simp: read_auth_req_def Let_def panics_bindR get_u8_eq_Inr_iff copy_to_bytes_eq_Inr_iff
      dest!: get_be_length read_varint_length)

lemma try_passwords_not_panics:
  "\<not> panics (fst (try_passwords hmac inst n sp prf caps ps r))"
  by (induction ps) (auto simp: check_and_insert_def Let_def split: option.splits prod.splits sum.splits if_splits)

text \<open>
  No request and no reply, however malformed, makes the authentication code panic.
\<close>
theorem auth_never_panics:
  "\<not> panics (fst (verify_auth_req hmac now inst f passwords replay)) \<and> \<not> panics (decode_auth_ok f)"
proof
  show "\<not> panics (fst (verify_auth_req hmac now inst f passwords replay))"
    using read_auth_req_not_panics [of now f] try_passwords_not_panics
    by (auto simp: verify_auth_req_def Let_def split: sum.splits)
  show "\<not> panics (decode_auth_ok f)"
    by (auto simp: decode_auth_ok_def panics_bindR split: list.splits)
qed

end
