(* ===== verification/Rsq_Control.thy ===== *)
theory Rsq_Control
  imports Rsq_Auth "HOL-Library.Sublist"
begin

text \<open>
  The control stream after authentication (\<^verbatim>\<open>rsb-protocol/src/rsq/control.rs\<close>): the client's
  keep-alive loop and the server's answers. A stream is the list of the results its reads
  give; a run that has used up the list is waiting for the next read.
\<close>

section \<open>Definitions\<close>

definition PONG_TIMEOUT_SECS :: nat where "PONG_TIMEOUT_SECS = 30"
definition PONG_FAIL_CLOSE_THRESHOLD :: nat where "PONG_FAIL_CLOSE_THRESHOLD = 3"

datatype read_event = ReadSome bytes | ReadEof | ReadErr string

text \<open>The client's reads are under a timeout: \<open>None\<close> is a read that timed out.\<close>

type_synonym timed_read = "read_event option"

datatype WaitPongError = PongTimeout | PongOther error

text \<open>
  The inner loop of both sides: take the frames at the front of the buffer. The client
  stops at the first PONG; the server answers each PING with the \<open>k\<close>-th PONG.
  \<open>advance\<close> past the end would panic; the consumed length is within the buffer.
\<close>

lemma consumed_bounds:
  assumes "try_decode_frame buf = Inr (Some f)" "frame_consumed_len buf = Inr tot"
  shows "0 < tot \<and> tot \<le> length buf"
proof -
  obtain t where "frame_wire_len buf = Inr (Some t)"
    using assms(1) by (auto simp: try_decode_frame_def split: option.splits)
  then show ?thesis using assms(2) frame_wire_len_bounds [of buf t]
    by (auto simp: frame_consumed_len_def with_context_def)
qed

function take_pong :: "bytes \<Rightarrow> (bool \<times> bytes) res" where
  "take_pong buf =
     (case try_decode_frame buf of
        Inl e \<Rightarrow> Inl e
      | Inr None \<Rightarrow> Inr (False, buf)
      | Inr (Some frame) \<Rightarrow>
          (case frame_consumed_len buf of
             Inl e \<Rightarrow> Inl e
           | Inr tot \<Rightarrow>
               (if frame_type frame = FRAME_PONG then Inr (True, drop tot buf)
                else take_pong (drop tot buf))))"
  by pat_completeness auto
termination
  by (relation "measure length") (auto dest: consumed_bounds)

declare take_pong.simps [simp del]

fun wait_loop :: "bytes \<Rightarrow> timed_read list \<Rightarrow> ((WaitPongError + unit) \<times> timed_read list) option" where
  "wait_loop buf evs =
     (case take_pong buf of
        Inl e \<Rightarrow> Some (Inl (PongOther e), evs)
      | Inr (True, _) \<Rightarrow> Some (Inr (), evs)
      | Inr (False, buf') \<Rightarrow>
          (case evs of
             [] \<Rightarrow> None
           | Some (ReadSome chunk) # evs' \<Rightarrow>
               (if length (buf' @ chunk) > 4096
                then Some (Inl (PongOther (Err ''rsq control response too large'')), evs')
                else wait_loop (buf' @ chunk) evs')
           | Some ReadEof # evs' \<Rightarrow> Some (Inl (PongOther (Err ''rsq control stream closed'')), evs')
           | Some (ReadErr e) # evs' \<Rightarrow> Some (Inl (PongOther (Err e)), evs')
           | None # evs' \<Rightarrow> Some (Inl PongTimeout, evs')))"

declare wait_loop.simps [simp del]

definition wait_for_pong :: "timed_read list \<Rightarrow> ((WaitPongError + unit) \<times> timed_read list) option" where
  "wait_for_pong evs = wait_loop [] evs"

text \<open>
  What a round of the keep-alive loop does with the outcome of its wait: the new count
  of consecutive timeouts, or the error that ends the loop and closes the connection.
\<close>

definition ping_round :: "u32 \<Rightarrow> WaitPongError + unit \<Rightarrow> u32 res" where
  "ping_round timeouts outcome =
     (case outcome of
        Inr _ \<Rightarrow> Inr 0
      | Inl PongTimeout \<Rightarrow>
          (let t = (if timeouts = - 1 then timeouts else timeouts + 1) in
           if t \<ge> of_nat PONG_FAIL_CLOSE_THRESHOLD then Inl (Err (''rsq pong timeout x'' @ show_nat (unat t))) else Inr t)
      | Inl (PongOther e) \<Rightarrow> Inl e)"

definition ping_frame :: "(nat \<Rightarrow> bytes) \<Rightarrow> u32 \<Rightarrow> bytes" where
  "ping_frame fill r = encode_frame fill FRAME_PING 0 [] (random_pad_len r 8 32)"

text \<open>
  The loop, over the results of its writes and of its reads. Its state at the end of them: asleep
  before the next round, waiting for a read, or ended by an error. The first component is what it
  has written.
\<close>

datatype client_status = Sleeping u32 | AwaitingPong | ClientFailed error

fun client_pings ::
  "(nat \<Rightarrow> bytes) \<Rightarrow> (nat \<Rightarrow> u32) \<Rightarrow> nat \<Rightarrow> u32 \<Rightarrow> unit res list \<Rightarrow> timed_read list \<Rightarrow> bytes list \<times> client_status" where
  "client_pings fill r k timeouts [] evs = ([], Sleeping timeouts)"
| "client_pings fill r k timeouts (Inl e # ws) evs = ([], ClientFailed e)"
| "client_pings fill r k timeouts (Inr _ # ws) evs =
     (case wait_for_pong evs of
        None \<Rightarrow> ([ping_frame fill (r k)], AwaitingPong)
      | Some (outcome, evs) \<Rightarrow>
          (case ping_round timeouts outcome of
             Inl e \<Rightarrow> ([ping_frame fill (r k)], ClientFailed e)
           | Inr timeouts \<Rightarrow>
               (let (more, st) = client_pings fill r (Suc k) timeouts ws evs in (ping_frame fill (r k) # more, st))))"

definition client_ping_loop ::
  "(nat \<Rightarrow> bytes) \<Rightarrow> (nat \<Rightarrow> u32) \<Rightarrow> unit res list \<Rightarrow> timed_read list \<Rightarrow> bytes list \<times> client_status" where
  "client_ping_loop fill r writes evs = client_pings fill r 0 0 writes evs"

definition pong_frame :: "(nat \<Rightarrow> bytes) \<Rightarrow> u32 \<Rightarrow> bytes" where
  "pong_frame fill r = encode_frame fill FRAME_PONG 0 [] (random_pad_len r 8 32)"

function server_drain :: "(nat \<Rightarrow> bytes) \<Rightarrow> (nat \<Rightarrow> u32) \<Rightarrow> nat \<Rightarrow> bytes \<Rightarrow> bytes list \<times> bytes res" where
  "server_drain fill r k buf =
     (case try_decode_frame buf of
        Inl e \<Rightarrow> ([], Inl e)
      | Inr None \<Rightarrow> ([], Inr buf)
      | Inr (Some frame) \<Rightarrow>
          (case frame_consumed_len buf of
             Inl e \<Rightarrow> ([], Inl e)
           | Inr tot \<Rightarrow>
               (let pongs = (if frame_type frame = FRAME_PING then [pong_frame fill (r k)] else []);
                    (more, res) = server_drain fill r (k + length pongs) (drop tot buf) in
                (pongs @ more, res))))"
  by pat_completeness auto
termination
  by (relation "measure (\<lambda>(fill, r, k, buf). length buf)") (auto dest: consumed_bounds)

declare server_drain.simps [simp del]

datatype control_status = Waiting bytes | Ended "unit res"

fun server_control ::
  "(nat \<Rightarrow> bytes) \<Rightarrow> (nat \<Rightarrow> u32) \<Rightarrow> nat \<Rightarrow> bytes \<Rightarrow> read_event list \<Rightarrow> bytes list \<times> control_status" where
  "server_control fill r k buf evs =
     (let (pongs, res) = server_drain fill r k buf in
      case res of
        Inl e \<Rightarrow> (pongs, Ended (Inl e))
      | Inr buf' \<Rightarrow>
          if length buf' > 8192 then (pongs, Ended (Inl (Err ''rsq control buffer overflow'')))
          else (case evs of
                  [] \<Rightarrow> (pongs, Waiting buf')
                | ReadSome chunk # evs' \<Rightarrow>
                    (let (more, st) = server_control fill r (k + length pongs) (buf' @ chunk) evs' in
                     (pongs @ more, st))
                | ReadEof # _ \<Rightarrow> (pongs, Ended (Inr ()))
                | ReadErr e # _ \<Rightarrow> (pongs, Ended (Inl (Err e)))))"

declare server_control.simps [simp del]

definition server_control_loop ::
  "(nat \<Rightarrow> bytes) \<Rightarrow> (nat \<Rightarrow> u32) \<Rightarrow> bytes \<Rightarrow> read_event list \<Rightarrow> bytes list \<times> control_status" where
  "server_control_loop fill r initial evs = server_control fill r 0 initial evs"


section \<open>The server answers every PING\<close>

type_synonym frame_spec = "u8 \<times> bytes \<times> nat"

definition put_frame :: "(nat \<Rightarrow> bytes) \<Rightarrow> frame_spec \<Rightarrow> bytes" where
  "put_frame fill x = (case x of (t, p, n) \<Rightarrow> encode_frame fill t 0 p n)"

definition frame_fits :: "(nat \<Rightarrow> bytes) \<Rightarrow> frame_spec \<Rightarrow> bool" where
  "frame_fits fill x = (case x of (t, p, n) \<Rightarrow> frame_ok fill 0 p n)"

definition pings :: "frame_spec list \<Rightarrow> nat" where
  "pings fs = length (filter (\<lambda>(t, _). t = FRAME_PING) fs)"

lemma put_frame_step:
  assumes "frame_fits fill x"
  shows "\<exists>f. try_decode_frame (put_frame fill x @ rest) = Inr (Some f) \<and> frame_type f = fst x \<and>
    frame_consumed_len (put_frame fill x @ rest) = Inr (length (put_frame fill x))"
  using assms
  by (cases x) (simp add: put_frame_def frame_fits_def try_decode_frame_encode frame_consumed_len_def
      frame_wire_len_encode with_context_def)

lemma server_drain_put_frame:
  assumes "frame_fits fill x"
  shows "server_drain fill r k (put_frame fill x @ rest) =
    (let pongs = (if fst x = FRAME_PING then [pong_frame fill (r k)] else []);
         (more, res) = server_drain fill r (k + length pongs) rest in (pongs @ more, res))"
  using put_frame_step [OF assms, of rest]
  by (subst server_drain.simps) (auto simp: Let_def)

lemma server_drain_frames:
  assumes "\<forall>x\<in>set fs. frame_fits fill x"
  shows "server_drain fill r k (concat (map (put_frame fill) fs) @ rest) =
    (let (more, res) = server_drain fill r (k + pings fs) rest in
     (map (\<lambda>i. pong_frame fill (r i)) [k..<k + pings fs] @ more, res))"
  using assms
proof (induction fs arbitrary: k)
  case (Cons x fs)
  obtain t p n where x: "x = (t, p, n)" by (cases x)
  note step = server_drain_put_frame [of fill x r k "concat (map (put_frame fill) fs) @ rest"]
  show ?case
  proof (cases "t = FRAME_PING")
    case True
    have "[k..<Suc (k + pings fs)] = k # [Suc k..<Suc (k + pings fs)]" by (simp add: upt_conv_Cons)
    then show ?thesis using step Cons True by (simp add: x pings_def split_beta Let_def del: upt_Suc)
  next
    case False
    then show ?thesis using step Cons by (simp add: x pings_def split_beta Let_def)
  qed
qed (simp add: pings_def split_beta)

lemma server_drain_empty [simp]: "server_drain fill r k [] = ([], Inr [])"
  by (subst server_drain.simps) (simp add: try_decode_frame_def frame_wire_len_def)



section \<open>The client closes after three timeouts in a row\<close>

lemma three_timeouts_skip:
  assumes "n < 3" "x \<noteq> T"
  shows "sublist [T, T, T] (replicate n T @ x # xs) \<longleftrightarrow> sublist [T, T, T] xs"
proof -
  have "n = 0 \<or> n = 1 \<or> n = 2" using assms(1) by linarith
  then show ?thesis
    using assms(2) by (auto simp: sublist_Cons_right prefix_Cons numeral_2_eq_2)
qed

lemma show_three: "show_nat 3 = ''3''"
  by code_simp

lemma ping_round_simps:
  "ping_round t (Inr ()) = Inr 0"
  "ping_round t (Inl (PongOther e)) = Inl e"
  "unat t < 3 \<Longrightarrow> ping_round t (Inl PongTimeout) =
     (if unat t = 2 then Inl (Err ''rsq pong timeout x3'') else Inr (t + 1))"
proof -
  assume t: "unat t < 3"
  then have "unat t = 0 \<or> unat t = 1 \<or> unat t = 2" by linarith
  then have "t = 0 \<or> t = 1 \<or> t = 2" by (auto simp: word_unat_eq_iff)
  then show "ping_round t (Inl PongTimeout) =
     (if unat t = 2 then Inl (Err ''rsq pong timeout x3'') else Inr (t + 1))"
    by (elim disjE) (simp_all add: ping_round_def PONG_FAIL_CLOSE_THRESHOLD_def word_le_nat_alt show_three)
qed (simp_all add: ping_round_def)

text \<open>The count of timeouts after a sequence of outcomes.\<close>

fun ping_rounds :: "u32 \<Rightarrow> (WaitPongError + unit) list \<Rightarrow> u32 res" where
  "ping_rounds timeouts [] = Inr timeouts"
| "ping_rounds timeouts (x # xs) = bindR (ping_round timeouts x) (\<lambda>t. ping_rounds t xs)"

lemma ping_rounds_ok_iff:
  "unat t < 3 \<Longrightarrow> is_ok (ping_rounds t xs) \<longleftrightarrow>
     (\<forall>e. Inl (PongOther e) \<notin> set xs) \<and>
     \<not> sublist [Inl PongTimeout, Inl PongTimeout, Inl PongTimeout]
         (replicate (unat t) (Inl PongTimeout) @ xs)"
proof (induction xs arbitrary: t)
  case Nil
  then have "unat t = 0 \<or> unat t = 1 \<or> unat t = 2" by linarith
  then show ?case by (auto simp: sublist_Cons_right numeral_2_eq_2)
next
  case (Cons x xs)
  consider "x = Inr ()" | e where "x = Inl (PongOther e)" | "x = Inl PongTimeout"
    by (metis (full_types) WaitPongError.exhaust old.unit.exhaust sum.exhaust)
  then show ?case
  proof cases
    case 1
    then show ?thesis
      using Cons.IH [of 0] three_timeouts_skip [OF Cons.prems, of x "Inl PongTimeout" xs]
      by (auto simp: ping_round_simps)
  next
    case 2
    then show ?thesis by (auto simp: ping_round_simps)
  next
    case 3
    let ?T = "Inl PongTimeout :: WaitPongError + unit"
    have r: "replicate (unat t) ?T @ x # xs = replicate (Suc (unat t)) ?T @ xs"
      using 3 by (simp add: replicate_append_same [symmetric])
    show ?thesis
    proof (cases "unat t = 2")
      case True
      then have "sublist [?T, ?T, ?T] (replicate (unat t) ?T @ x # xs)"
        unfolding r by (simp add: numeral_2_eq_2 sublist_Cons_right)
      then show ?thesis using 3 True Cons.prems by (simp add: ping_round_simps)
    next
      case False
      then have "unat (t + 1) = Suc (unat t)" using Cons.prems by (simp add: unat_word_ariths)
      then show ?thesis
        using Cons.IH [of "t + 1"] Cons.prems False 3 unfolding r by (simp add: ping_round_simps)
    qed
  qed
qed

text \<open>The outcomes of the first \<open>n\<close> waits for a PONG.\<close>

fun pong_outcomes :: "nat \<Rightarrow> timed_read list \<Rightarrow> (WaitPongError + unit) list" where
  "pong_outcomes 0 evs = []"
| "pong_outcomes (Suc n) evs =
     (case wait_for_pong evs of None \<Rightarrow> [] | Some (outcome, evs) \<Rightarrow> outcome # pong_outcomes n evs)"

lemma client_pings_status:
  "snd (client_pings fill r k t (replicate n (Inr ())) evs) =
     (case ping_rounds t (pong_outcomes n evs) of
        Inl e \<Rightarrow> ClientFailed e
      | Inr t \<Rightarrow> if length (pong_outcomes n evs) = n then Sleeping t else AwaitingPong)"
proof (induction n arbitrary: k t evs)
  case (Suc n)
  show ?case
  proof (cases "wait_for_pong evs")
    case (Some x)
    then obtain o' evs' where x: "wait_for_pong evs = Some (o', evs')" by (cases x) simp
    then have "pong_outcomes (Suc n) evs = o' # pong_outcomes n evs'" by simp
    then show ?thesis using Suc x by (cases "ping_round t o'") (simp_all add: split_def Let_def del: pong_outcomes.simps split: sum.split)
  qed simp
qed simp

text \<open>
  While the writes succeed, the keep-alive loop survives single and double losses: it ends exactly
  when a wait ended with another error than a timeout or there were three timeouts in a
  row; any answered PING in between starts the count afresh.
\<close>
theorem client_ping_ends_iff:
  "(\<exists>e. snd (client_ping_loop fill r (replicate n (Inr ())) evs) = ClientFailed e) \<longleftrightarrow>
     (\<exists>e. Inl (PongOther e) \<in> set (pong_outcomes n evs)) \<or>
     sublist [Inl PongTimeout, Inl PongTimeout, Inl PongTimeout] (pong_outcomes n evs)"
proof -
  have "(\<exists>e. snd (client_ping_loop fill r (replicate n (Inr ())) evs) = ClientFailed e) \<longleftrightarrow>
      \<not> is_ok (ping_rounds 0 (pong_outcomes n evs))"
    by (simp add: client_ping_loop_def client_pings_status is_ok_def split: sum.split)
  then show ?thesis using ping_rounds_ok_iff [of 0 "pong_outcomes n evs"] by auto
qed

section \<open>Waiting for a PONG\<close>

lemma take_pong_put_frame:
  assumes "frame_fits fill x"
  shows "take_pong (put_frame fill x @ rest) =
    (if fst x = FRAME_PONG then Inr (True, rest) else take_pong rest)"
  using put_frame_step [OF assms, of rest] by (subst take_pong.simps) auto

lemma take_pong_frames:
  assumes "\<forall>x\<in>set fs. frame_fits fill x \<and> fst x \<noteq> FRAME_PONG"
  shows "take_pong (concat (map (put_frame fill) fs) @ rest) = take_pong rest"
  using assms by (induction fs) (simp_all add: take_pong_put_frame)

lemma take_pong_empty [simp]: "take_pong [] = Inr (False, [])"
  by (subst take_pong.simps) (simp add: try_decode_frame_def frame_wire_len_def)

text \<open>
  A PONG is recognised behind any other whole frames in the same read, and every byte
  after it in that read is thrown away: the next wait starts with an empty buffer. So the
  first part of a further PONG that arrives in the same read is lost, and its second
  part, at the start of the next wait, is reported as an error that closes the connection.
\<close>
theorem wait_for_pong_discards_rest:
  assumes "\<forall>x\<in>set fs. frame_fits fill x \<and> fst x \<noteq> FRAME_PONG"
    and "frame_fits fill (FRAME_PONG, p, n)"
    and "length (concat (map (put_frame fill) fs) @ put_frame fill (FRAME_PONG, p, n) @ rest) \<le> 4096"
    and "6 \<le> length part" "take 4 part \<noteq> MAGIC" "length part \<le> 4096"
  shows "wait_for_pong (Some (ReadSome (concat (map (put_frame fill) fs) @
        put_frame fill (FRAME_PONG, p, n) @ rest)) # Some (ReadSome part) # evs) =
      Some (Inr (), Some (ReadSome part) # evs) \<and>
    wait_for_pong (Some (ReadSome part) # evs) = Some (Inl (PongOther (Err ''bad rsq magic'')), evs)"
proof
  let ?data = "concat (map (put_frame fill) fs) @ put_frame fill (FRAME_PONG, p, n) @ rest"
  have "take_pong ?data = Inr (True, rest)"
    using take_pong_frames [OF assms(1)] take_pong_put_frame [OF assms(2), of rest] by simp
  moreover have "wait_for_pong (Some (ReadSome ?data) # evs') = wait_loop ?data evs'" for evs'
    unfolding wait_for_pong_def
    by (subst wait_loop.simps) (use assms(3) in \<open>simp del: append_assoc map_append\<close>)
  ultimately show "wait_for_pong (Some (ReadSome ?data) # Some (ReadSome part) # evs) =
      Some (Inr (), Some (ReadSome part) # evs)"
    by (simp add: wait_loop.simps)
  have "take_pong part = Inl (Err ''bad rsq magic'')"
    using assms(4,5) by (subst take_pong.simps) (simp add: try_decode_frame_def frame_wire_len_def)
  then have "wait_loop part evs = Some (Inl (PongOther (Err ''bad rsq magic'')), evs)"
    by (simp add: wait_loop.simps)
  then show "wait_for_pong (Some (ReadSome part) # evs) = Some (Inl (PongOther (Err ''bad rsq magic'')), evs)"
    unfolding wait_for_pong_def using assms(6) by (subst wait_loop.simps) simp
qed

theorem wait_for_pong_discards_rest_witness:
  "wait_for_pong [Some (ReadSome (put_frame zero_fill (FRAME_PONG, [], 8) @ [1, 2])),
       Some (ReadSome [9, 9, 9, 9, 9, 9])] = Some (Inr (), [Some (ReadSome [9, 9, 9, 9, 9, 9])]) \<and>
   wait_for_pong [Some (ReadSome [9, 9, 9, 9, 9, 9])] = Some (Inl (PongOther (Err ''bad rsq magic'')), [])"
proof -
  have fits: "frame_fits zero_fill (FRAME_PONG, [], 8)"
    by (simp add: frame_fits_def frame_ok_def pad_agrees_def)
  have "length (put_frame zero_fill (FRAME_PONG, [], 8) @ [1, 2]) \<le> 4096"
    using length_write_varint [of 0]
    by (simp add: put_frame_def encode_frame_layout pad_part_def MAGIC_def as_bytes_def)
  then show ?thesis
    using wait_for_pong_discards_rest [where fs = "[]" and rest = "[1, 2]" and part = "[9, 9, 9, 9, 9, 9]" and evs = "[]", OF _ fits]
    by (simp add: MAGIC_def as_bytes_def)
qed

end
