(* ===== verification/Udp_Fragment.thy ===== *)
theory Udp_Fragment
  imports Rsq_Protocol "HOL-Library.AList" "HOL-Library.Multiset"
begin

text \<open>
  UDP fragmentation and reassembly of \<^verbatim>\<open>rsb-protocol/src/rsq/udp_fragment.rs\<close>. A
  \<^verbatim>\<open>HashMap\<close> is an association list with distinct keys, in iteration order; the order is
  arbitrary, and the theorems hold for every order. Instants are nanoseconds as
  \<open>nat\<close>, passed as the argument \<open>now\<close> where the code calls \<^verbatim>\<open>Instant::now\<close>;
  \<^verbatim>\<open>duration_since\<close> saturates at zero, as subtraction on \<open>nat\<close> does.
\<close>

section \<open>Definitions\<close>

definition FRAGMENT_TTL :: nat where "FRAGMENT_TTL = 5 * 10 ^ 9"
definition MAX_FRAGMENT_PAYLOAD :: nat where "MAX_FRAGMENT_PAYLOAD = 1100"
definition MAX_UDP_FRAGMENTS :: nat where "MAX_UDP_FRAGMENTS = 255"
definition MAX_UDP_PAYLOAD :: nat where
  "MAX_UDP_PAYLOAD = MAX_FRAGMENT_PAYLOAD * MAX_UDP_FRAGMENTS"

definition is_udp_session_close :: "UdpMessage \<Rightarrow> bool" where
  "is_udp_session_close m \<longleftrightarrow> fragment_count m = 0 \<and> msg_addr m = [] \<and> msg_payload m = []"

definition encode_udp_session_close :: "u32 \<Rightarrow> bytes" where
  "encode_udp_session_close sid =
     udp_encode \<lparr>session_id = sid, packet_id = 0, fragment_id = 0, fragment_count = 0,
                 msg_addr = [], msg_payload = []\<rparr>"

text \<open>\<^verbatim>\<open>slice::chunks\<close> and \<^verbatim>\<open>usize::div_ceil\<close>.\<close>

function chunks :: "nat \<Rightarrow> 'a list \<Rightarrow> 'a list list" where
  "chunks n xs = (if xs = [] \<or> n = 0 then [] else take n xs # chunks n (drop n xs))"
  by pat_completeness auto
termination
  by (relation "measure (\<lambda>(n, xs). length xs)") auto

declare chunks.simps [simp del]

definition div_ceil :: "nat \<Rightarrow> nat \<Rightarrow> nat" where
  "div_ceil a b = a div b + (if a mod b > 0 then 1 else 0)"

definition fragment_messages :: "u32 \<Rightarrow> u16 \<Rightarrow> string \<Rightarrow> bytes list \<Rightarrow> u8 \<Rightarrow> UdpMessage list" where
  "fragment_messages sid pid a cs fc =
     map (\<lambda>(i, chunk). \<lparr>session_id = sid, packet_id = pid, fragment_id = of_nat i,
            fragment_count = fc, msg_addr = a, msg_payload = chunk\<rparr>)
       (enumerate 0 cs)"

definition fragment_payload :: "u32 \<Rightarrow> u16 \<Rightarrow> string \<Rightarrow> bytes \<Rightarrow> bytes list res" where
  "fragment_payload sid pid a p =
     (if length p \<le> MAX_FRAGMENT_PAYLOAD then
        Inr [udp_encode \<lparr>session_id = sid, packet_id = pid, fragment_id = 0,
                         fragment_count = 1, msg_addr = a, msg_payload = p\<rparr>]
      else
        let n = div_ceil (length p) MAX_FRAGMENT_PAYLOAD in
        if n > MAX_UDP_FRAGMENTS then Inl (Err ''udp payload too large'')
        else Inr (map udp_encode
               (fragment_messages sid pid a (chunks MAX_FRAGMENT_PAYLOAD p) (of_nat n))))"

record PacketAssembly =
  asm_fragments :: "(u8 \<times> bytes) list"
  asm_count :: u8
  asm_addr :: "string option"
  asm_started :: "nat option"

definition PacketAssembly_default :: PacketAssembly where
  "PacketAssembly_default =
     \<lparr>asm_fragments = [], asm_count = 0, asm_addr = None, asm_started = None\<rparr>"

record UdpReassembler =
  packets :: "((u32 \<times> u16) \<times> PacketAssembly) list"

definition reassembler_new :: UdpReassembler where
  "reassembler_new = \<lparr>packets = []\<rparr>"

fun gather :: "(u8 \<times> bytes) list \<Rightarrow> u8 list \<Rightarrow> bytes res" where
  "gather fs [] = Inr []"
| "gather fs (i # is) =
     (case map_of fs i of
        None \<Rightarrow> Inl (Err ''missing udp fragment'')
      | Some part \<Rightarrow> bindR (gather fs is) (\<lambda>r. Inr (part @ r)))"

definition ingest :: "nat \<Rightarrow> UdpMessage \<Rightarrow> UdpReassembler \<Rightarrow> UdpMessage option res \<times> UdpReassembler" where
  "ingest now m st =
     (if fragment_count m \<le> 1 then (Inr (Some m), st)
      else
        let key = (session_id m, packet_id m);
            e0 = (case map_of (packets st) key of None \<Rightarrow> PacketAssembly_default | Some e \<Rightarrow> e);
            e1 = (if asm_started e0 = None then e0\<lparr>asm_started := Some now\<rparr> else e0);
            e2 = (if asm_count e1 = 0
                  then e1\<lparr>asm_count := fragment_count m, asm_addr := Some (msg_addr m)\<rparr> else e1);
            removed = st\<lparr>packets := AList.delete key (packets st)\<rparr>;
            stored = (\<lambda>e. st\<lparr>packets := AList.update key e (packets st)\<rparr>) in
        if asm_count e1 \<noteq> 0 \<and> asm_count e1 \<noteq> fragment_count m then
          (Inl (Err ''udp fragment count mismatch''), removed)
        else if asm_count e1 \<noteq> 0 \<and> asm_addr e1 \<notin> {None, Some (msg_addr m)} then
          (Inl (Err ''udp fragment addr mismatch''), removed)
        else if fragment_id m \<ge> fragment_count m then
          (Inl (Err ''invalid fragment id''), stored e2)
        else
          let fs = AList.update (fragment_id m) (msg_payload m) (asm_fragments e2);
              e3 = e2\<lparr>asm_fragments := fs\<rparr> in
          if length fs \<noteq> unat (fragment_count m) then (Inr None, stored e3)
          else
            (bindR (gather fs (map of_nat [0..<unat (asm_count e3)])) (\<lambda>p.
               Inr (Some \<lparr>session_id = session_id m, packet_id = packet_id m, fragment_id = 0,
                          fragment_count = 1,
                          msg_addr = (case asm_addr e3 of Some x \<Rightarrow> x | None \<Rightarrow> msg_addr m),
                          msg_payload = p\<rparr>)),
             removed))"

definition prune_expired :: "nat \<Rightarrow> UdpReassembler \<Rightarrow> UdpReassembler" where
  "prune_expired now st =
     st\<lparr>packets := filter (\<lambda>(k, a). case asm_started a of
           Some t \<Rightarrow> now - t < FRAGMENT_TTL | None \<Rightarrow> True) (packets st)\<rparr>"

fun prune_loop :: "nat \<Rightarrow> ('k \<times> 'v) list \<Rightarrow> ('k \<times> 'v) list" where
  "prune_loop max_packets [] = []"
| "prune_loop max_packets (kv # ps) =
     (if length (kv # ps) > max_packets then prune_loop max_packets ps else kv # ps)"

definition prune_stale :: "nat \<Rightarrow> nat \<Rightarrow> UdpReassembler \<Rightarrow> UdpReassembler" where
  "prune_stale now max_packets st =
     (let st = prune_expired now st in st\<lparr>packets := prune_loop max_packets (packets st)\<rparr>)"

definition pending_count :: "UdpReassembler \<Rightarrow> nat" where
  "pending_count st = length (packets st)"

definition ensure_fragment_ready :: "UdpMessage \<Rightarrow> unit res" where
  "ensure_fragment_ready m =
     (if fragment_count m = 0 then Inl (Err ''invalid fragment_count'') else Inr ())"


section \<open>Chunking\<close>

lemma concat_chunks: "0 < n \<Longrightarrow> concat (chunks n xs) = xs"
  by (induction n xs rule: chunks.induct) (subst chunks.simps, simp)

lemma length_chunks: "0 < n \<Longrightarrow> length (chunks n xs) = div_ceil (length xs) n"
proof (induction n xs rule: chunks.induct)
  case (1 n xs)
  show ?case
  proof (cases "length xs \<le> n")
    case True
    then show ?thesis using "1.prems"
      by (cases "length xs = n") (auto simp: chunks.simps [of n xs] chunks.simps [of n "[]"] div_ceil_def)
  next
    case False
    then have "div_ceil (length xs) n = Suc (div_ceil (length xs - n) n)"
      using "1.prems" by (simp add: div_ceil_def le_div_geq le_mod_geq)
    with False 1 show ?thesis by (auto simp: chunks.simps [of n xs])
  qed
qed

lemma chunks_bounded: "c \<in> set (chunks n xs) \<Longrightarrow> length c \<le> n"
  by (induction n xs rule: chunks.induct)
    (metis (no_types, lifting) chunks.simps empty_iff length_take list.set(1) min.cobounded2 set_ConsD)

lemma div_ceil_le_iff:
  assumes "0 < b"
  shows "div_ceil a b \<le> k \<longleftrightarrow> a \<le> b * k"
proof -
  let ?q = "a div b" and ?r = "a mod b"
  have a: "a = b * ?q + ?r" and r: "?r < b"
    using assms by simp_all
  consider "?q < k" | "?q = k" | "k < ?q" by linarith
  then show ?thesis
  proof cases
    case 1
    then have "b * Suc ?q \<le> b * k" by (intro mult_le_mono2) simp
    then have "a \<le> b * k" using a r unfolding mult_Suc_right by linarith
    with 1 show ?thesis by (simp add: div_ceil_def)
  next
    case 2
    then have "a \<le> b * k \<longleftrightarrow> ?r = 0" using a by (metis add_le_same_cancel1 le_zero_eq)
    with 2 show ?thesis by (simp add: div_ceil_def)
  next
    case 3
    then have "b * k < b * ?q" using assms by simp
    then have "b * k < a" using a by linarith
    with 3 show ?thesis by (simp add: div_ceil_def)
  qed
qed


section \<open>The reassembly table\<close>

text \<open>
  The invariant of the table: keys are distinct, and every pending packet knows its
  fragment count, its address and its start time and holds fewer fragments than the
  count, with distinct identifiers below it.
\<close>

definition asm_wf :: "PacketAssembly \<Rightarrow> bool" where
  "asm_wf a \<longleftrightarrow> 1 < asm_count a \<and> asm_addr a \<noteq> None \<and> asm_started a \<noteq> None \<and>
     distinct (map fst (asm_fragments a)) \<and>
     list_all (\<lambda>i. i < asm_count a) (map fst (asm_fragments a)) \<and>
     length (asm_fragments a) < unat (asm_count a)"

definition reassembler_wf :: "UdpReassembler \<Rightarrow> bool" where
  "reassembler_wf st \<longleftrightarrow>
     distinct (map fst (packets st)) \<and> list_all asm_wf (map snd (packets st))"

lemma asm_wf_lookup:
  "reassembler_wf st \<Longrightarrow> map_of (packets st) k = Some a \<Longrightarrow> asm_wf a"
  by (auto simp: reassembler_wf_def list_all_iff dest!: map_of_SomeD)

lemma AList_update_member: "kv \<in> set (AList.update k v al) \<Longrightarrow> snd kv = v \<or> kv \<in> set al"
  by (induction al) (auto split: if_splits)

lemma AList_delete_member: "kv \<in> set (AList.delete k al) \<Longrightarrow> kv \<in> set al"
  by (auto simp: AList.delete_eq)

lemma distinct_fst_filter: "distinct (map fst al) \<Longrightarrow> distinct (map fst (filter P al))"
  by (induction al) auto

lemma reassembler_wf_delete:
  "reassembler_wf st \<Longrightarrow> reassembler_wf (st\<lparr>packets := AList.delete k (packets st)\<rparr>)"
  by (auto simp: reassembler_wf_def list_all_iff distinct_delete dest!: AList_delete_member)

lemma reassembler_wf_update:
  "reassembler_wf st \<Longrightarrow> asm_wf a \<Longrightarrow>
     reassembler_wf (st\<lparr>packets := AList.update k a (packets st)\<rparr>)"
  by (fastforce simp: reassembler_wf_def list_all_iff distinct_update dest: AList_update_member)

text \<open>A full set of distinct identifiers below the count is all of them.\<close>

lemma gather_ok:
  "set is \<subseteq> fst ` set fs \<Longrightarrow> gather fs is = Inr (concat (map (\<lambda>i. the (map_of fs i)) is))"
proof (induction "is")
  case (Cons i "is")
  then obtain p where "map_of fs i = Some p"
    by (metis insert_subset list.simps(15) map_of_eq_None_iff option.exhaust)
  with Cons show ?case by simp
qed simp

lemma full_fragment_set:
  fixes c :: u8
  assumes "distinct (map fst fs)" "list_all (\<lambda>i. i < c) (map fst fs)" "length fs = unat c"
  shows "set (map of_nat [0..<unat c]) \<subseteq> fst ` set fs"
proof -
  have fin: "finite {i. i < c}" by simp
  have "card {i. i < c} \<le> unat c"
    using card_inj_on_le [of unat "{i. i < c}" "{..<unat c}"]
    by (simp add: inj_on_def image_subset_iff word_less_nat_alt unsigned_word_eqI)
  moreover have "card (fst ` set fs) = unat c"
    using assms(1,3) by (metis distinct_card length_map list.set_map)
  moreover have "fst ` set fs \<subseteq> {i. i < c}"
    using assms(2) by (auto simp: list_all_iff)
  ultimately have eq: "fst ` set fs = {i. i < c}"
    by (metis card_seteq fin)
  have "of_nat n < c" if "n < unat c" for n
    using that by (simp add: word_less_nat_alt unat_of_nat less_le_trans [OF _ less_imp_le [OF unat_u8_less]] take_bit_nat_eq_self_iff)
  then show ?thesis by (auto simp: eq)
qed


lemma length_AList_update:
  "length (AList.update k v al) = (if k \<in> fst ` set al then length al else Suc (length al))"
  by (induction al) auto

lemma asm_wf_insert:
  assumes "asm_wf a \<or> asm_fragments a = [] \<and> 1 < asm_count a \<and> asm_addr a \<noteq> None \<and> asm_started a \<noteq> None"
    and "i < asm_count a" and "fs = AList.update i p (asm_fragments a)"
  shows "distinct (map fst fs) \<and> list_all (\<lambda>i. i < asm_count a) (map fst fs) \<and>
    length fs \<le> unat (asm_count a)"
  using assms
  by (auto simp: asm_wf_def list_all_iff distinct_update update_keys length_AList_update
      word_less_nat_alt split: if_splits)

text \<open>The entry that \<^const>\<open>ingest\<close> works on after its first two conditionals.\<close>

definition opened :: "nat \<Rightarrow> UdpMessage \<Rightarrow> UdpReassembler \<Rightarrow> PacketAssembly" where
  "opened now m st = (case map_of (packets st) (session_id m, packet_id m) of
       None \<Rightarrow> \<lparr>asm_fragments = [], asm_count = fragment_count m, asm_addr = Some (msg_addr m),
                asm_started = Some now\<rparr>
     | Some e \<Rightarrow> e)"

lemma ingest_single: "fragment_count m \<le> 1 \<Longrightarrow> ingest now m st = (Inr (Some m), st)"
  by (simp add: ingest_def)

lemma ingest_wf_eq:
  assumes "reassembler_wf st" "1 < fragment_count m"
  shows "ingest now m st =
    (let key = (session_id m, packet_id m); e = opened now m st;
         removed = st\<lparr>packets := AList.delete key (packets st)\<rparr>;
         fs = AList.update (fragment_id m) (msg_payload m) (asm_fragments e) in
     if asm_count e \<noteq> fragment_count m then (Inl (Err ''udp fragment count mismatch''), removed)
     else if asm_addr e \<noteq> Some (msg_addr m) then (Inl (Err ''udp fragment addr mismatch''), removed)
     else if fragment_id m \<ge> fragment_count m then
       (Inl (Err ''invalid fragment id''), st\<lparr>packets := AList.update key e (packets st)\<rparr>)
     else if length fs \<noteq> unat (fragment_count m) then
       (Inr None, st\<lparr>packets := AList.update key (e\<lparr>asm_fragments := fs\<rparr>) (packets st)\<rparr>)
     else
       (Inr (Some \<lparr>session_id = session_id m, packet_id = packet_id m, fragment_id = 0,
           fragment_count = 1, msg_addr = msg_addr m,
           msg_payload = concat (map (\<lambda>i. the (map_of fs (of_nat i))) [0..<unat (fragment_count m)])\<rparr>),
        removed))"
proof (cases "map_of (packets st) (session_id m, packet_id m)")
  case None
  have "\<not> fragment_count m \<le> 1" using assms(2) by simp
  moreover have "length (AList.update i p []) \<noteq> unat (fragment_count m)" for i :: u8 and p :: bytes
    using assms(2) by (simp add: word_less_nat_alt)
  ultimately show ?thesis
    using None assms(2) by (simp add: ingest_def opened_def PacketAssembly_default_def Let_def)
next
  case (Some e)
  have wf: "asm_wf e" using assms(1) Some by (rule asm_wf_lookup)
  let ?fs = "AList.update (fragment_id m) (msg_payload m) (asm_fragments e)"
  have g: "gather ?fs (map of_nat [0..<unat (asm_count e)]) =
      Inr (concat (map (\<lambda>i. the (map_of ?fs (of_nat i))) [0..<unat (asm_count e)]))"
    if "fragment_id m < asm_count e" "length ?fs = unat (asm_count e)"
    using asm_wf_insert [OF disjI1 [OF wf] that(1) refl] that(2)
    by (subst gather_ok [OF full_fragment_set]) (auto simp: comp_def)
  have nz: "asm_count e \<noteq> 0" "\<not> fragment_count m \<le> 1" using wf assms(2) by (auto simp: asm_wf_def)
  obtain x t where e: "asm_addr e = Some x" "asm_started e = Some t"
    using wf by (auto simp: asm_wf_def)
  show ?thesis using Some nz e g by (auto simp: ingest_def opened_def Let_def not_le)
qed


lemma opened_wf:
  assumes "reassembler_wf st" "1 < fragment_count m"
  shows "asm_wf (opened now m st)"
  using assms asm_wf_lookup [OF assms(1)]
  by (auto simp: opened_def asm_wf_def word_less_nat_alt split: option.splits)

lemma ingest_preserves_wf:
  assumes wf: "reassembler_wf st"
  shows "reassembler_wf (snd (ingest now m st))"
proof (cases "1 < fragment_count m")
  case True
  let ?e = "opened now m st"
  let ?fs = "AList.update (fragment_id m) (msg_payload m) (asm_fragments ?e)"
  have e: "asm_wf ?e" using wf True by (rule opened_wf)
  have "asm_wf (?e\<lparr>asm_fragments := ?fs\<rparr>)"
    if "fragment_id m < asm_count ?e" "length ?fs \<noteq> unat (asm_count ?e)"
    using asm_wf_insert [OF disjI1 [OF e] that(1) refl, of "msg_payload m"] e that(2)
    by (simp add: asm_wf_def)
  then show ?thesis
    unfolding ingest_wf_eq [OF wf True]
    by (auto simp: Let_def e wf not_le intro: reassembler_wf_delete reassembler_wf_update)
next
  case False
  then show ?thesis using wf by (simp add: ingest_single not_less)
qed

lemma prune_loop_drop: "prune_loop n ps = drop (length ps - n) ps"
  by (induction n ps rule: prune_loop.induct) (auto simp: Suc_diff_le not_less)

lemma prune_expired_wf: "reassembler_wf st \<Longrightarrow> reassembler_wf (prune_expired now st)"
  by (auto simp: reassembler_wf_def prune_expired_def list_all_iff distinct_fst_filter)

lemma prune_stale_wf: "reassembler_wf st \<Longrightarrow> reassembler_wf (prune_stale now n st)"
  by (drule prune_expired_wf [of _ now])
    (auto simp: reassembler_wf_def prune_stale_def Let_def prune_loop_drop list_all_iff
      distinct_drop simp flip: drop_map dest!: in_set_dropD)

text \<open>
  The operations on the table as a transition system: any interleaving of received
  messages and clean-ups from the empty table stays in the invariant.
\<close>

inductive reassembler_step :: "UdpReassembler \<Rightarrow> UdpReassembler \<Rightarrow> bool" where
  step_ingest: "reassembler_step st (snd (ingest now m st))"
| step_prune_expired: "reassembler_step st (prune_expired now st)"
| step_prune_stale: "reassembler_step st (prune_stale now n st)"

lemma reassembler_reachable_wf:
  "reassembler_step\<^sup>*\<^sup>* reassembler_new st \<Longrightarrow> reassembler_wf st"
proof (induction rule: rtranclp_induct)
  case base
  show ?case by (simp add: reassembler_new_def reassembler_wf_def)
next
  case (step st st')
  from step(2) step.IH show ?case
    by cases (simp_all add: ingest_preserves_wf prune_expired_wf prune_stale_wf)
qed

text \<open>
  C11: In every state the reassembler can reach through received messages and clean-ups,
  a message is either rejected for one of the three documented reasons or accepted: the
  "missing udp fragment" error inside the assembly loop is dead code. Entries of other
  packets are never touched, and a message that reports an error with a mismatch or
  completes its packet leaves no entry for that packet behind.
\<close>
theorem ingest_reachable:
  assumes "reassembler_step\<^sup>*\<^sup>* reassembler_new st"
  shows "(case fst (ingest now m st) of
            Inl e \<Rightarrow> e \<in> {Err ''udp fragment count mismatch'', Err ''udp fragment addr mismatch'',
                          Err ''invalid fragment id''}
          | Inr None \<Rightarrow> 1 < fragment_count m \<and> fragment_id m < fragment_count m
          | Inr (Some r) \<Rightarrow> fragment_count r \<le> 1 \<and> session_id r = session_id m \<and>
               packet_id r = packet_id m \<and> msg_addr r = msg_addr m)
    \<and> (\<forall>k. k \<noteq> (session_id m, packet_id m) \<longrightarrow>
         map_of (packets (snd (ingest now m st))) k = map_of (packets st) k)
    \<and> (1 < fragment_count m \<and> fst (ingest now m st) \<notin> {Inr None, Inl (Err ''invalid fragment id'')} \<longrightarrow>
         map_of (packets (snd (ingest now m st))) (session_id m, packet_id m) = None)"
proof (cases "1 < fragment_count m")
  case True
  show ?thesis
    unfolding ingest_wf_eq [OF reassembler_reachable_wf [OF assms] True]
    using True by (simp add: Let_def update_conv' delete_conv' not_le)
next
  case False
  then show ?thesis by (simp add: ingest_single not_less)
qed


theorem ingest_reachable_witness:
  "map_of (packets (snd (ingest 0 \<lparr>session_id = 7, packet_id = 9, fragment_id = 2, fragment_count = 2,
       msg_addr = ''a:1'', msg_payload = [1]\<rparr> (snd (ingest 0 \<lparr>session_id = 8, packet_id = 9,
       fragment_id = 0, fragment_count = 2, msg_addr = ''a:1'', msg_payload = [1]\<rparr> reassembler_new)))))
     (8, 9) = Some \<lparr>asm_fragments = [(0, [1])], asm_count = 2, asm_addr = Some ''a:1'', asm_started = Some 0\<rparr>"
proof -
  let ?m = "\<lparr>session_id = 8, packet_id = 9, fragment_id = 0, fragment_count = 2,
    msg_addr = ''a:1'', msg_payload = [1]\<rparr>"
  let ?st = "snd (ingest 0 ?m reassembler_new)"
  have "reassembler_step\<^sup>*\<^sup>* reassembler_new ?st"
    using step_ingest [of reassembler_new 0 ?m] by blast
  note r = ingest_reachable [OF this, where now = 0 and m = "\<lparr>session_id = 7, packet_id = 9,
      fragment_id = 2, fragment_count = 2, msg_addr = ''a:1'', msg_payload = [1]\<rparr>", THEN conjunct2, THEN conjunct1]
  have "map_of (packets (snd (ingest 0 \<lparr>session_id = 7, packet_id = 9, fragment_id = 2,
      fragment_count = 2, msg_addr = ''a:1'', msg_payload = [1]\<rparr> ?st))) (8, 9) = map_of (packets ?st) (8, 9)"
    by (rule r [rule_format]) simp
  also have "\<dots> = Some \<lparr>asm_fragments = [(0, [1])], asm_count = 2, asm_addr = Some ''a:1'', asm_started = Some 0\<rparr>"
    by (simp add: ingest_def reassembler_new_def PacketAssembly_default_def word_le_nat_alt)
  finally show ?thesis .
qed

section \<open>Fragments in any order give the payload back\<close>

text \<open>
  The receiving side, as \<^verbatim>\<open>udp_demux.rs\<close> and \<^verbatim>\<open>udp_relay.rs\<close> run it: decode each datagram,
  hand it to the reassembler. Every datagram comes with its arrival time.
\<close>

fun receive_all :: "(nat \<times> bytes) list \<Rightarrow> UdpReassembler \<Rightarrow> UdpMessage option res list \<times> UdpReassembler" where
  "receive_all [] st = ([], st)"
| "receive_all ((now, frame) # fs) st =
     (case udp_decode frame of
        Inl e \<Rightarrow> (let (rs, st') = receive_all fs st in (Inl e # rs, st'))
      | Inr m \<Rightarrow>
          (let (r, st1) = ingest now m st; (rs, st') = receive_all fs st1 in (r # rs, st')))"

definition frag :: "u32 \<Rightarrow> u16 \<Rightarrow> string \<Rightarrow> bytes list \<Rightarrow> nat \<Rightarrow> UdpMessage" where
  "frag sid pid a cs i = \<lparr>session_id = sid, packet_id = pid, fragment_id = of_nat i,
     fragment_count = of_nat (length cs), msg_addr = a, msg_payload = cs ! i\<rparr>"

definition pending :: "nat \<Rightarrow> string \<Rightarrow> bytes list \<Rightarrow> nat list \<Rightarrow> PacketAssembly" where
  "pending t a cs js = \<lparr>asm_fragments = map (\<lambda>i. (of_nat i, cs ! i)) js,
     asm_count = of_nat (length cs), asm_addr = Some a, asm_started = Some t\<rparr>"

lemma fragment_messages_frag:
  "fragment_messages sid pid a cs (of_nat (length cs)) = map (frag sid pid a cs) [0..<length cs]"
  by (auto simp: fragment_messages_def frag_def enumerate_eq_zip intro!: nth_equalityI)

lemma unat_of_nat_u8 [simp]: "i < 256 \<Longrightarrow> unat (of_nat i :: u8) = i"
  by (simp add: unat_of_nat take_bit_nat_eq_self_iff)

lemma of_nat_u8_eq_iff:
  "i < 256 \<Longrightarrow> j < 256 \<Longrightarrow> (of_nat i :: u8) = of_nat j \<longleftrightarrow> i = j"
  by (metis unat_of_nat_u8)

lemma map_of_indexed:
  assumes "i \<in> set js" "\<forall>j\<in>set js. j < 256"
  shows "map_of (map (\<lambda>i. (of_nat i :: u8, f i)) js) (of_nat i) = Some (f i)"
  using assms by (induction js) (auto simp: of_nat_u8_eq_iff)

lemma AList_update_snoc: "k \<notin> fst ` set al \<Longrightarrow> AList.update k v (al @ [(k, w)]) = al @ [(k, v)]"
  by (induction al) auto

lemma AList_update_fresh: "k \<notin> fst ` set al \<Longrightarrow> AList.update k v al = al @ [(k, v)]"
  by (induction al) auto

lemma AList_delete_snoc: "k \<notin> fst ` set al \<Longrightarrow> AList.delete k (al @ [(k, w)]) = al"
  by (induction al) (auto simp: AList.delete_eq)

lemma map_of_snoc: "k \<notin> fst ` set al \<Longrightarrow> map_of (al @ [(k, w)]) k = Some w"
  by (induction al) auto

lemma pending_wf:
  assumes "length cs \<le> 255" "distinct js" "set js \<subseteq> {..<length cs}" "length js < length cs" "1 < length cs"
  shows "asm_wf (pending t a cs js)"
proof -
  have lt: "j < 256" "(of_nat j :: u8) < of_nat (length cs)" if "j \<in> set js" for j
    using that assms(1,3) by (auto simp: word_less_nat_alt subset_iff)
  have "inj_on (of_nat :: nat \<Rightarrow> u8) (set js)" by (intro inj_onI) (simp add: lt of_nat_u8_eq_iff)
  with assms lt show ?thesis
    by (auto simp: asm_wf_def pending_def list_all_iff comp_def distinct_map word_less_nat_alt)
qed


definition whole :: "u32 \<Rightarrow> u16 \<Rightarrow> string \<Rightarrow> bytes \<Rightarrow> UdpMessage" where
  "whole sid pid a p = \<lparr>session_id = sid, packet_id = pid, fragment_id = 0,
     fragment_count = 1, msg_addr = a, msg_payload = p\<rparr>"

lemma ingest_pending:
  assumes wf: "reassembler_wf st" and fresh: "(sid, pid) \<notin> fst ` set (packets st)"
    and n: "length cs \<le> 255" "1 < length cs"
    and js: "distinct (js @ [i])" "set (js @ [i]) \<subseteq> {..<length cs}"
  shows "ingest now (frag sid pid a cs i) (st\<lparr>packets := packets st @ [((sid, pid), pending t a cs js)]\<rparr>) =
    (if Suc (length js) = length cs
     then (Inr (Some (whole sid pid a (concat (map ((!) cs) [0..<length cs])))), st)
     else (Inr None, st\<lparr>packets := packets st @ [((sid, pid), pending t a cs (js @ [i]))]\<rparr>))"
proof -
  let ?m = "frag sid pid a cs i" and ?p = "pending t a cs js"
  let ?st = "st\<lparr>packets := packets st @ [((sid, pid), ?p)]\<rparr>"
  let ?fs = "map (\<lambda>i. (of_nat i :: u8, cs ! i)) (js @ [i])"
  have lt: "j < length cs" "j < 256" if "j \<in> set (js @ [i])" for j
    using that js(2) n by auto
  have "card (set (js @ [i])) \<le> card {..<length cs}"
    using js(2) by (rule card_mono [rotated]) simp
  then have "Suc (length js) \<le> length cs"
    using distinct_card [OF js(1)] by simp
  then have "asm_wf ?p"
    using js n by (intro pending_wf) auto
  then have wf': "reassembler_wf ?st"
    using wf fresh by (auto simp: reassembler_wf_def)
  have c: "1 < fragment_count ?m"
    using n by (simp add: frag_def word_less_nat_alt)
  have up: "AList.update (of_nat i) (cs ! i) (asm_fragments ?p) = ?fs"
    using js(1) lt by (subst AList_update_fresh) (auto simp: pending_def of_nat_u8_eq_iff)
  have op: "opened now ?m ?st = ?p"
    using fresh by (simp add: opened_def frag_def map_of_snoc del: map_of_append)
  have "map_of ?fs (of_nat j) = Some (cs ! j)" if "Suc (length js) = length cs" "j < length cs" for j
  proof (rule map_of_indexed)
    have "set (js @ [i]) = {..<length cs}"
      by (rule card_seteq) (use js(2) distinct_card [OF js(1)] that(1) in simp_all)
    then show "j \<in> set (js @ [i])" using that(2) by blast
  qed (use lt in blast)
  then have parts: "map (\<lambda>j. the (map_of ?fs (of_nat j))) [0..<length cs] = map ((!) cs) [0..<length cs]"
    if "Suc (length js) = length cs"
    using that by (intro map_cong) simp_all
  have p: "asm_count ?p = of_nat (length cs)" "asm_addr ?p = Some a"
      "?p\<lparr>asm_fragments := ?fs\<rparr> = pending t a cs (js @ [i])"
    by (simp_all add: pending_def)
  have m: "session_id ?m = sid" "packet_id ?m = pid" "fragment_id ?m = of_nat i"
      "fragment_count ?m = of_nat (length cs)" "msg_addr ?m = a" "msg_payload ?m = cs ! i"
      "\<not> of_nat (length cs) \<le> (of_nat i :: u8)" "unat (of_nat (length cs) :: u8) = length cs"
      "length ?fs = Suc (length js)"
    using lt [of i] n by (simp_all add: frag_def word_less_nat_alt not_le)
  show ?thesis
    unfolding ingest_wf_eq [OF wf' c] op Let_def up m p
    using fresh m(7)
    by (simp add: m(8) up AList_update_snoc AList_delete_snoc whole_def p(3) parts del: map_append)
qed


lemma receive_pending:
  assumes wf: "reassembler_wf st" and fresh: "(sid, pid) \<notin> fst ` set (packets st)"
    and n: "length cs \<le> 255" "1 < length cs"
    and a: "valid_str a" "length a < 2 ^ 62"
  shows "distinct (js @ is) \<Longrightarrow> set (js @ is) = {..<length cs} \<Longrightarrow> is \<noteq> [] \<Longrightarrow>
    map snd arr = map (\<lambda>i. udp_encode (frag sid pid a cs i)) is \<Longrightarrow>
    receive_all arr (st\<lparr>packets := packets st @ [((sid, pid), pending t a cs js)]\<rparr>) =
      (replicate (length is - 1) (Inr None) @ [Inr (Some (whole sid pid a (concat (map ((!) cs) [0..<length cs]))))], st)"
proof (induction "is" arbitrary: js arr)
  case (Cons i "is")
  obtain now arr' where arr: "arr = (now, udp_encode (frag sid pid a cs i)) # arr'"
      "map snd arr' = map (\<lambda>i. udp_encode (frag sid pid a cs i)) is"
    using Cons.prems(4) by (cases arr) auto
  have dec: "udp_decode (udp_encode (frag sid pid a cs i)) = Inr (frag sid pid a cs i)"
    using a by (intro udp_decode_encode) (simp_all add: frag_def)
  have len: "length js + Suc (length is) = length cs"
    using distinct_card [OF Cons.prems(1)] Cons.prems(2) by simp
  have "distinct (js @ [i])" "set (js @ [i]) \<subseteq> {..<length cs}"
    using Cons.prems(1,2) by auto
  note step = ingest_pending [OF wf fresh n this, of now a t]
  show ?case
  proof (cases "is = []")
    case True
    then show ?thesis using len arr by (simp add: dec step)
  next
    case False
    have "distinct ((js @ [i]) @ is)" "set ((js @ [i]) @ is) = {..<length cs}"
      using Cons.prems(1,2) by auto
    note IH = Cons.IH [OF this False arr(2)]
    obtain k where k: "length is = Suc k" using False by (cases "is") auto
    then have "Suc (length js) \<noteq> length cs" using len by simp
    then have "ingest now (frag sid pid a cs i) (st\<lparr>packets := packets st @ [((sid, pid), pending t a cs js)]\<rparr>) =
        (Inr None, st\<lparr>packets := packets st @ [((sid, pid), pending t a cs (js @ [i]))]\<rparr>)"
      by (simp only: step if_False)
    then show ?thesis using IH by (simp add: arr(1) dec k)
  qed
qed simp

lemma ingest_first:
  assumes wf: "reassembler_wf st" and fresh: "(sid, pid) \<notin> fst ` set (packets st)"
    and n: "length cs \<le> 255" "1 < length cs"
  shows "ingest now (frag sid pid a cs i) st =
    ingest now (frag sid pid a cs i) (st\<lparr>packets := packets st @ [((sid, pid), pending now a cs [])]\<rparr>)"
    (is "ingest now ?m st = ingest now ?m ?st")
proof -
  have "asm_wf (pending now a cs [])" using n by (intro pending_wf) auto
  then have wf': "reassembler_wf ?st"
    using wf fresh by (auto simp: reassembler_wf_def)
  have c: "1 < fragment_count ?m"
    using n by (simp add: frag_def word_less_nat_alt)
  have "map_of (packets st) (sid, pid) = None"
    using fresh by (simp add: map_of_eq_None_iff)
  then have "opened now ?m st = pending now a cs []"
    by (simp add: opened_def frag_def pending_def)
  moreover have "opened now ?m ?st = pending now a cs []"
    using fresh by (simp add: opened_def frag_def map_of_snoc del: map_of_append)
  ultimately show ?thesis
    using fresh unfolding ingest_wf_eq [OF wf c] ingest_wf_eq [OF wf' c]
    by (simp add: frag_def Let_def AList_update_snoc AList_update_fresh AList_delete_snoc delete_id)
qed

lemma mset_map_list:
  assumes "mset ys = mset (map f xs)"
  shows "\<exists>zs. mset zs = mset xs \<and> ys = map f zs"
  using assms
proof (induction ys arbitrary: xs)
  case (Cons y ys)
  then have "y \<in> set (map f xs)" by (metis list.set_intros(1) set_mset_mset)
  then obtain x where x: "x \<in> set xs" "y = f x" by auto
  have "mset xs = mset (x # remove1 x xs)" using x(1) by simp
  with Cons.prems have "mset (y # ys) = image_mset f (mset (x # remove1 x xs))"
    by (simp only: mset_map)
  then have "mset (map f (remove1 x xs)) = mset ys" by (simp add: x(2) del: mset_remove1)
  from Cons.IH [OF this [symmetric]] obtain zs where "mset zs = mset (remove1 x xs)" "ys = map f zs" by blast
  with x show ?case by (intro exI [of _ "x # zs"]) simp
qed simp


lemma fragment_messages_length [simp]: "length (fragment_messages sid pid a cs n) = length cs"
  by (simp add: fragment_messages_def)

lemma fragment_messages_bounded:
  assumes "m \<in> set (fragment_messages sid pid a (chunks k p) n)"
  shows "length (msg_payload m) \<le> k"
proof -
  obtain i where "msg_payload m = chunks k p ! i" "i < length (chunks k p)"
    using assms by (auto simp: fragment_messages_def in_set_enumerate_eq)
  then show ?thesis using chunks_bounded [OF nth_mem] by simp
qed

lemma receive_any_order:
  assumes wf: "reassembler_wf st" and fresh: "(sid, pid) \<notin> fst ` set (packets st)"
    and a: "valid_str a" "length a < 2 ^ 62"
    and frames: "fragment_payload sid pid a p = Inr frames"
    and arr: "mset (map snd arr) = mset frames"
  shows "receive_all arr st = (replicate (length frames - 1) (Inr None) @ [Inr (Some (whole sid pid a p))], st)"
proof (cases "length p \<le> MAX_FRAGMENT_PAYLOAD")
  case True
  then have "frames = [udp_encode (whole sid pid a p)]"
    using frames by (simp add: fragment_payload_def whole_def)
  moreover from this obtain now where "arr = [(now, udp_encode (whole sid pid a p))]"
    using arr by (cases arr) auto
  moreover have "udp_decode (udp_encode (whole sid pid a p)) = Inr (whole sid pid a p)"
    using a by (intro udp_decode_encode) (simp_all add: whole_def)
  ultimately show ?thesis by (simp add: ingest_single whole_def)
next
  case False
  define cs where "cs = chunks MAX_FRAGMENT_PAYLOAD p"
  have "concat (map ((!) cs) [0..<length cs]) = concat cs" by (simp add: map_nth)
  then have lc: "length cs = div_ceil (length p) MAX_FRAGMENT_PAYLOAD" "concat (map ((!) cs) [0..<length cs]) = p"
    unfolding cs_def by (simp_all add: length_chunks concat_chunks MAX_FRAGMENT_PAYLOAD_def)
  have n: "length cs \<le> 255" "1 < length cs"
    using False frames div_ceil_le_iff [of MAX_FRAGMENT_PAYLOAD "length p" 1] unfolding lc
    by (auto simp: fragment_payload_def Let_def MAX_FRAGMENT_PAYLOAD_def MAX_UDP_FRAGMENTS_def not_le
        split: if_splits)
  have fr: "frames = map (udp_encode \<circ> frag sid pid a cs) [0..<length cs]"
    using frames False n
    by (simp add: fragment_payload_def Let_def MAX_UDP_FRAGMENTS_def fragment_messages_frag
        flip: cs_def lc(1) split: if_splits)
  obtain "is" where js: "mset is = mset [0..<length cs]"
      "map snd arr = map (udp_encode \<circ> frag sid pid a cs) is"
    using mset_map_list [OF arr [unfolded fr]] by blast
  have lf: "length frames = length cs" by (simp add: fr)
  have d: "distinct is" "set is = {..<length cs}" "length is = length cs"
    using mset_eq_imp_distinct_iff [OF js(1)] mset_eq_setD [OF js(1)] mset_eq_length [OF js(1)]
    by (simp_all add: atLeast0LessThan)
  then obtain i is' now fs where first: "is = i # is'" "arr = (now, udp_encode (frag sid pid a cs i)) # fs"
    using n js(2) by (cases "is"; cases arr) auto
  have dec: "udp_decode (udp_encode (frag sid pid a cs i)) = Inr (frag sid pid a cs i)"
    using a by (intro udp_decode_encode) (simp_all add: frag_def)
  have "receive_all arr st = receive_all arr (st\<lparr>packets := packets st @ [((sid, pid), pending now a cs [])]\<rparr>)"
    unfolding first by (simp add: dec ingest_first [OF wf fresh n])
  also have "\<dots> = (replicate (length frames - 1) (Inr None) @ [Inr (Some (whole sid pid a p))], st)"
    using receive_pending [OF wf fresh n a, of "[]" "is" arr now] d js(2) n(2)
    unfolding lc(2) lf comp_def by (cases "is") simp_all
  finally show ?thesis .
qed




text \<open>
  C20: \<^const>\<open>fragment_payload\<close> accepts exactly the payloads of at most 280500 bytes
  (255 fragments of 1100 bytes); the number of datagrams is the payload length divided by
  1100, rounded up (one for an empty payload), so that the fragment count fits its byte, and
  the payload of every datagram is at most 1100 bytes.
\<close>
theorem fragment_payload_bounds:
  "case fragment_payload sid pid a p of
     Inl e \<Rightarrow> e = Err ''udp payload too large'' \<and> length p > MAX_UDP_PAYLOAD
   | Inr frames \<Rightarrow> length p \<le> MAX_UDP_PAYLOAD \<and> length frames = max 1 (div_ceil (length p) 1100) \<and>
       length frames \<le> 255 \<and>
       list_all (\<lambda>f. \<exists>m. f = udp_encode m \<and> length (msg_payload m) \<le> 1100) frames"
proof (cases "length p \<le> MAX_FRAGMENT_PAYLOAD")
  case True
  moreover have "div_ceil (length p) 1100 \<le> 1"
    using True by (subst div_ceil_le_iff) (simp_all add: MAX_FRAGMENT_PAYLOAD_def)
  ultimately show ?thesis
    by (auto simp: fragment_payload_def MAX_FRAGMENT_PAYLOAD_def MAX_UDP_PAYLOAD_def
        MAX_UDP_FRAGMENTS_def intro!: exI)
next
  case False
  have "div_ceil (length p) 1100 \<le> 255 \<longleftrightarrow> length p \<le> MAX_UDP_PAYLOAD"
    by (subst div_ceil_le_iff) (simp_all add: MAX_FRAGMENT_PAYLOAD_def MAX_UDP_PAYLOAD_def MAX_UDP_FRAGMENTS_def)
  moreover have "div_ceil (length p) 1100 \<ge> 1"
    using False div_ceil_le_iff [of 1100 "length p" 0] by (auto simp: MAX_FRAGMENT_PAYLOAD_def)
  ultimately show ?thesis using False
    by (simp add: fragment_payload_def Let_def MAX_FRAGMENT_PAYLOAD_def MAX_UDP_FRAGMENTS_def
        length_chunks list_all_iff) (auto intro: fragment_messages_bounded)
qed

end
