(* ===== verification/Obfs.thy ===== *)
theory Obfs
  imports Rust_Prelude
begin

text \<open>
  UDP obfuscation: \<^verbatim>\<open>rsq/obfs.rs\<close>, \<^verbatim>\<open>rst/obfs.rs\<close> (the same code with other domain
  strings) and Salamander of \<^verbatim>\<open>hysteria2/obfs.rs\<close>, all under \<^verbatim>\<open>rsb-protocol/src\<close>. BLAKE2b-512
  is the parameter \<open>blake\<close>; the random salt, pad byte and padding are arguments.
\<close>

section \<open>Definitions\<close>

definition SALT_LEN :: nat where "SALT_LEN = 8"
definition HASH_LEN :: nat where "HASH_LEN = 32"
definition MAX_V2_PAD :: nat where "MAX_V2_PAD = 31"
definition RSQ_DOMAIN_V1 :: bytes where "RSQ_DOMAIN_V1 = as_bytes ''rsq-obfs-v1''"
definition RSQ_DOMAIN_V2 :: bytes where "RSQ_DOMAIN_V2 = as_bytes ''rsq-obfs-v2''"
definition RST_DOMAIN_V1 :: bytes where "RST_DOMAIN_V1 = as_bytes ''rst-obfs-v1''"
definition RST_DOMAIN_V2 :: bytes where "RST_DOMAIN_V2 = as_bytes ''rst-obfs-v2''"

datatype ObfsVersion = V1 | V2

definition obfs_version_parse :: "u64 option \<Rightarrow> ObfsVersion" where
  "obfs_version_parse raw = (if (case raw of Some n \<Rightarrow> n | None \<Rightarrow> 1) = 2 then V2 else V1)"

text \<open>The randomness one call of an encoder draws.\<close>

record obfs_rnd =
  rnd_salt :: bytes
  rnd_pad :: u8
  rnd_fill :: "nat \<Rightarrow> bytes"

definition xor_with :: "bytes \<Rightarrow> bytes \<Rightarrow> bytes" where
  "xor_with hash payload = map (\<lambda>(i, b). b XOR hash ! (i mod HASH_LEN)) (enumerate 0 payload)"

definition v2_inner :: "obfs_rnd \<Rightarrow> bytes \<Rightarrow> bytes" where
  "v2_inner rnd payload =
     (let pad_len = unat (rnd_pad rnd) mod (MAX_V2_PAD + 1) in
      payload @ (if pad_len > 0 then rnd_fill rnd pad_len else []) @ [of_nat pad_len])"

definition v2_strip :: "bytes \<Rightarrow> bytes option" where
  "v2_strip inner =
     (if inner = [] then None
      else let pad_len = unat (last inner) in
        if length inner < 1 + pad_len then None
        else Some (take (length inner - 1 - pad_len) inner))"

record RsqObfs =
  obfs_key :: bytes
  obfs_version :: ObfsVersion

definition rsq_with_version :: "string \<Rightarrow> ObfsVersion \<Rightarrow> RsqObfs" where
  "rsq_with_version password v = \<lparr>obfs_key = as_bytes password, obfs_version = v\<rparr>"

definition rsq_obfs_new :: "string \<Rightarrow> RsqObfs" where
  "rsq_obfs_new password = rsq_with_version password V1"

definition rsq_salted_hash :: "(bytes \<Rightarrow> bytes) \<Rightarrow> RsqObfs \<Rightarrow> bytes \<Rightarrow> bytes" where
  "rsq_salted_hash blake ob salt =
     (let dom = (case obfs_version ob of V1 \<Rightarrow> RSQ_DOMAIN_V1 | V2 \<Rightarrow> RSQ_DOMAIN_V2) in
      take HASH_LEN (blake (obfs_key ob @ dom @ salt)))"

definition rsq_xor_payload :: "(bytes \<Rightarrow> bytes) \<Rightarrow> RsqObfs \<Rightarrow> bytes \<Rightarrow> bytes \<Rightarrow> bytes" where
  "rsq_xor_payload blake ob salt payload = xor_with (rsq_salted_hash blake ob salt) payload"

definition rsq_obfs_encode :: "(bytes \<Rightarrow> bytes) \<Rightarrow> RsqObfs \<Rightarrow> obfs_rnd \<Rightarrow> bytes \<Rightarrow> bytes" where
  "rsq_obfs_encode blake ob rnd payload =
     (let inner = (case obfs_version ob of V1 \<Rightarrow> payload | V2 \<Rightarrow> v2_inner rnd payload) in
      rnd_salt rnd @ rsq_xor_payload blake ob (rnd_salt rnd) inner)"

definition rsq_decode_owned :: "(bytes \<Rightarrow> bytes) \<Rightarrow> RsqObfs \<Rightarrow> bytes \<Rightarrow> bytes option" where
  "rsq_decode_owned blake ob packet =
     (if length packet \<le> SALT_LEN then None
      else
        let salt = take SALT_LEN packet; payload = drop SALT_LEN packet;
            inner = rsq_xor_payload blake ob salt payload in
        case obfs_version ob of V1 \<Rightarrow> Some inner | V2 \<Rightarrow> v2_strip inner)"

record RstObfs =
  rst_key :: bytes
  rst_version :: ObfsVersion

definition rst_with_version :: "string \<Rightarrow> ObfsVersion \<Rightarrow> RstObfs" where
  "rst_with_version password v = \<lparr>rst_key = as_bytes password, rst_version = v\<rparr>"

definition rst_salted_hash :: "(bytes \<Rightarrow> bytes) \<Rightarrow> RstObfs \<Rightarrow> bytes \<Rightarrow> bytes" where
  "rst_salted_hash blake ob salt =
     (let dom = (case rst_version ob of V1 \<Rightarrow> RST_DOMAIN_V1 | V2 \<Rightarrow> RST_DOMAIN_V2) in
      take HASH_LEN (blake (rst_key ob @ dom @ salt)))"

definition rst_obfs_encode :: "(bytes \<Rightarrow> bytes) \<Rightarrow> RstObfs \<Rightarrow> obfs_rnd \<Rightarrow> bytes \<Rightarrow> bytes" where
  "rst_obfs_encode blake ob rnd payload =
     (let inner = (case rst_version ob of V1 \<Rightarrow> payload | V2 \<Rightarrow> v2_inner rnd payload) in
      rnd_salt rnd @ xor_with (rst_salted_hash blake ob (rnd_salt rnd)) inner)"

definition rst_decode_owned :: "(bytes \<Rightarrow> bytes) \<Rightarrow> RstObfs \<Rightarrow> bytes \<Rightarrow> bytes option" where
  "rst_decode_owned blake ob packet =
     (if length packet \<le> SALT_LEN then None
      else
        let salt = take SALT_LEN packet; payload = drop SALT_LEN packet;
            inner = xor_with (rst_salted_hash blake ob salt) payload in
        case rst_version ob of V1 \<Rightarrow> Some inner | V2 \<Rightarrow> v2_strip inner)"

record Salamander =
  sal_key :: bytes

definition salamander_new :: "string \<Rightarrow> Salamander" where
  "salamander_new password = \<lparr>sal_key = as_bytes password\<rparr>"

definition salamander_salted_hash :: "(bytes \<Rightarrow> bytes) \<Rightarrow> Salamander \<Rightarrow> bytes \<Rightarrow> bytes" where
  "salamander_salted_hash blake ob salt = take HASH_LEN (blake (sal_key ob @ salt))"

definition salamander_encode :: "(bytes \<Rightarrow> bytes) \<Rightarrow> Salamander \<Rightarrow> obfs_rnd \<Rightarrow> bytes \<Rightarrow> bytes" where
  "salamander_encode blake ob rnd payload =
     rnd_salt rnd @ xor_with (salamander_salted_hash blake ob (rnd_salt rnd)) payload"

definition salamander_decode_owned :: "(bytes \<Rightarrow> bytes) \<Rightarrow> Salamander \<Rightarrow> bytes \<Rightarrow> bytes option" where
  "salamander_decode_owned blake ob packet =
     (if length packet \<le> SALT_LEN then None
      else let salt = take SALT_LEN packet; payload = drop SALT_LEN packet in
        Some (xor_with (salamander_salted_hash blake ob salt) payload))"


section \<open>The contract of an obfuscator\<close>

text \<open>
  What the packet loops rely on: a nonempty packet comes back unchanged, the overhead is
  bounded (so that the MTU can be reserved), a datagram without room for salt and data is
  rejected, and what is decoded is shorter than the datagram.
\<close>

definition rnd_ok :: "obfs_rnd \<Rightarrow> bool" where
  "rnd_ok rnd \<longleftrightarrow> length (rnd_salt rnd) = SALT_LEN \<and>
     length (rnd_fill rnd (unat (rnd_pad rnd) mod (MAX_V2_PAD + 1))) = unat (rnd_pad rnd) mod (MAX_V2_PAD + 1)"

locale obfuscator =
  fixes enc :: "obfs_rnd \<Rightarrow> bytes \<Rightarrow> bytes"
    and dec :: "bytes \<Rightarrow> bytes option"
    and overhead :: nat
  assumes dec_enc: "rnd_ok rnd \<Longrightarrow> p \<noteq> [] \<Longrightarrow> dec (enc rnd p) = Some p"
    and enc_length: "rnd_ok rnd \<Longrightarrow> length p + SALT_LEN \<le> length (enc rnd p) \<and>
      length (enc rnd p) \<le> length p + SALT_LEN + overhead"
    and dec_short: "length x \<le> SALT_LEN \<Longrightarrow> dec x = None"
    and dec_length: "dec x = Some p \<Longrightarrow> length p + SALT_LEN \<le> length x"
begin

lemma enc_inj:
  assumes "rnd_ok rnd" "rnd_ok rnd'" "p \<noteq> []" "q \<noteq> []" "enc rnd p = enc rnd' q"
  shows "p = q"
  using assms dec_enc by (metis option.inject)

text \<open>A stream of datagrams: every packet comes out once, in order, and noise is dropped.\<close>

lemma dec_stream:
  assumes "\<forall>(r, p)\<in>set ps. rnd_ok r \<and> p \<noteq> []"
  shows "List.map_filter dec (map (\<lambda>(r, p). enc r p) ps) = map snd ps"
  using assms by (induction ps) (auto simp: List.map_filter_def dec_enc)

end

lemma length_xor_with [simp]: "length (xor_with h p) = length p"
  by (simp add: xor_with_def)

lemma xor_with_twice [simp]: "xor_with h (xor_with h p) = p"
  by (auto simp: xor_with_def in_set_zip enumerate_eq_zip xor.assoc intro!: nth_equalityI)

lemma xor_with_eq_Nil [simp]: "xor_with h p = [] \<longleftrightarrow> p = []"
  by (metis length_0_conv length_xor_with)

lemma pad_len_bound: "n mod (MAX_V2_PAD + 1) < 256" "n mod (MAX_V2_PAD + 1) \<le> 31"
  by (simp_all add: MAX_V2_PAD_def order_trans [OF less_imp_le] less_Suc_eq_le [symmetric])

lemma v2_strip_inner:
  assumes "rnd_ok rnd"
  shows "v2_strip (v2_inner rnd p) = Some p"
proof -
  let ?n = "unat (rnd_pad rnd) mod (MAX_V2_PAD + 1)"
  have "unat (of_nat ?n :: u8) = ?n"
    using pad_len_bound by (simp add: unat_of_nat take_bit_nat_eq_self_iff)
  then show ?thesis
    using assms by (auto simp: v2_strip_def v2_inner_def rnd_ok_def Let_def)
qed

lemma length_v2_inner:
  "rnd_ok rnd \<Longrightarrow> length (v2_inner rnd p) = length p + 1 + unat (rnd_pad rnd) mod (MAX_V2_PAD + 1)"
  by (simp add: v2_inner_def rnd_ok_def Let_def)

lemma v2_strip_length: "v2_strip x = Some p \<Longrightarrow> length p < length x"
  by (auto simp: v2_strip_def Let_def split: if_splits)

lemmas obfs_defs = rsq_obfs_encode_def rsq_decode_owned_def rsq_xor_payload_def
  rst_obfs_encode_def rst_decode_owned_def salamander_encode_def salamander_decode_owned_def

interpretation rsq_obfs: obfuscator "rsq_obfs_encode blake ob" "rsq_decode_owned blake ob" 32
  for blake and ob :: RsqObfs
proof unfold_locales
  fix rnd :: obfs_rnd and p x :: bytes
  assume "rnd_ok rnd"
  note ok = this and len = length_v2_inner [OF this] v2_strip_inner [OF this]
  have salt: "length (rnd_salt rnd) = SALT_LEN" using ok by (simp add: rnd_ok_def)
  show "rsq_decode_owned blake ob (rsq_obfs_encode blake ob rnd p) = Some p" if "p \<noteq> []"
    using that salt len by (cases "obfs_version ob") (simp_all add: obfs_defs Let_def)
  show "length p + SALT_LEN \<le> length (rsq_obfs_encode blake ob rnd p) \<and>
      length (rsq_obfs_encode blake ob rnd p) \<le> length p + SALT_LEN + 32"
    using salt len pad_len_bound(2) [of "unat (rnd_pad rnd)"]
    by (cases "obfs_version ob") (simp_all add: obfs_defs Let_def)
next
  fix p x :: bytes
  show "rsq_decode_owned blake ob x = None" if "length x \<le> SALT_LEN"
    using that by (simp add: obfs_defs)
  show "length p + SALT_LEN \<le> length x" if "rsq_decode_owned blake ob x = Some p"
    using that by (auto simp: obfs_defs Let_def split: if_splits ObfsVersion.splits dest!: v2_strip_length)
qed

interpretation rst_obfs: obfuscator "rst_obfs_encode blake ob" "rst_decode_owned blake ob" 32
  for blake and ob :: RstObfs
proof unfold_locales
  fix rnd :: obfs_rnd and p x :: bytes
  assume "rnd_ok rnd"
  note ok = this and len = length_v2_inner [OF this] v2_strip_inner [OF this]
  have salt: "length (rnd_salt rnd) = SALT_LEN" using ok by (simp add: rnd_ok_def)
  show "rst_decode_owned blake ob (rst_obfs_encode blake ob rnd p) = Some p" if "p \<noteq> []"
    using that salt len by (cases "rst_version ob") (simp_all add: obfs_defs Let_def)
  show "length p + SALT_LEN \<le> length (rst_obfs_encode blake ob rnd p) \<and>
      length (rst_obfs_encode blake ob rnd p) \<le> length p + SALT_LEN + 32"
    using salt len pad_len_bound(2) [of "unat (rnd_pad rnd)"]
    by (cases "rst_version ob") (simp_all add: obfs_defs Let_def)
next
  fix p x :: bytes
  show "rst_decode_owned blake ob x = None" if "length x \<le> SALT_LEN"
    using that by (simp add: obfs_defs)
  show "length p + SALT_LEN \<le> length x" if "rst_decode_owned blake ob x = Some p"
    using that by (auto simp: obfs_defs Let_def split: if_splits ObfsVersion.splits dest!: v2_strip_length)
qed

interpretation salamander: obfuscator "salamander_encode blake ob" "salamander_decode_owned blake ob" 0
  for blake and ob :: Salamander
  by unfold_locales (auto simp: obfs_defs rnd_ok_def Let_def split: if_splits)




text \<open>
  The overhead of a datagram is bounded: RSQ and RST obfuscation add at least 8 and at
  most 40 bytes, Salamander exactly 8, and nothing is decoded from 8 bytes or less.
\<close>
theorem obfs_overhead:
  assumes "rnd_ok rnd"
  shows "length (rsq_obfs_encode blake rsq rnd p) \<in> {length p + 8..length p + 40} \<and>
     length (rst_obfs_encode blake rst rnd p) \<in> {length p + 8..length p + 40} \<and>
     length (salamander_encode blake sal rnd p) = length p + 8 \<and>
     (length x \<le> 8 \<longrightarrow> rsq_decode_owned blake rsq x = None \<and> rst_decode_owned blake rst x = None \<and>
        salamander_decode_owned blake sal x = None)"
  using rsq_obfs.enc_length [OF assms, of p blake rsq] rst_obfs.enc_length [OF assms, of p blake rst]
    salamander.enc_length [OF assms, of p blake sal]
    rsq_obfs.dec_short [of x] rst_obfs.dec_short [of x] salamander.dec_short [of x]
  by (simp add: SALT_LEN_def)

theorem obfs_overhead_witness:
  "length (salamander_encode (\<lambda>_. replicate 64 5) \<lparr>sal_key = [1]\<rparr>
     \<lparr>rnd_salt = replicate 8 2, rnd_pad = 0, rnd_fill = \<lambda>n. replicate n 9\<rparr> [3, 4]) = 10"
proof -
  have "rnd_ok \<lparr>rnd_salt = replicate 8 2, rnd_pad = 0, rnd_fill = \<lambda>n. replicate n 9\<rparr>"
    by (simp add: rnd_ok_def SALT_LEN_def)
  from obfs_overhead [OF this, of _ _ "[3, 4]"] show ?thesis by simp
qed

end
