(* ===== verification/Hy2_Protocol.thy ===== *)
theory Hy2_Protocol
  imports Wire_Codec
begin

text \<open>
  The TCP request and response of \<^verbatim>\<open>rsb-protocol/src/hysteria2/protocol.rs\<close>;
  \<^verbatim>\<open>rst/protocol.rs\<close> is the same file. The variable-length integers are those of
  the codec theory. Random padding comes from the parameter \<open>fill\<close>.
\<close>

section \<open>Definitions\<close>

definition TCP_REQUEST_ID :: u64 where "TCP_REQUEST_ID = 0x401"
definition TCP_STATUS_OK :: u8 where "TCP_STATUS_OK = 0x00"
definition TCP_STATUS_ERROR :: u8 where "TCP_STATUS_ERROR = 0x01"

definition put_padding :: "(nat \<Rightarrow> bytes) \<Rightarrow> nat \<Rightarrow> bytes" where
  "put_padding fill padding_len =
     write_varint (of_nat padding_len) @ (if padding_len > 0 then fill padding_len else [])"

definition encode_tcp_request :: "(nat \<Rightarrow> bytes) \<Rightarrow> string \<Rightarrow> nat \<Rightarrow> bytes" where
  "encode_tcp_request fill a padding_len =
     write_varint TCP_REQUEST_ID @ write_varint (of_nat (length a)) @ as_bytes a @
     put_padding fill padding_len"

text \<open>A length, then that many bytes; \<open>msg\<close> is the error when they are not there yet.\<close>

definition read_block :: "string \<Rightarrow> bytes \<Rightarrow> (bytes \<times> bytes) res" where
  "read_block msg buf =
     bindR (read_varint buf) (\<lambda>(n, buf).
       if length buf < unat n then Inl (Err msg) else copy_to_bytes (unat n) buf)"

definition decode_tcp_request :: "bytes \<Rightarrow> (string \<times> bytes) res" where
  "decode_tcp_request buf =
     bindR (read_varint buf) (\<lambda>(i, buf).
     if i \<noteq> TCP_REQUEST_ID then Inl (Err ''unexpected message id'')
     else
       bindR (read_block ''truncated address'' buf) (\<lambda>(addr_bytes, buf).
       bindR (with_context ''address utf8'' (from_utf8 addr_bytes)) (\<lambda>a.
       bindR (read_block ''truncated padding'' buf) (\<lambda>(_, buf).
       Inr (a, buf)))))"

definition encode_tcp_response :: "(nat \<Rightarrow> bytes) \<Rightarrow> bool \<Rightarrow> string \<Rightarrow> nat \<Rightarrow> bytes" where
  "encode_tcp_response fill ok message padding_len =
     [if ok then TCP_STATUS_OK else TCP_STATUS_ERROR] @
     write_varint (of_nat (length message)) @ as_bytes message @ put_padding fill padding_len"

definition decode_tcp_response :: "bytes \<Rightarrow> ((bool \<times> string) \<times> bytes) res" where
  "decode_tcp_response buf =
     (if length buf < 1 then Inl (Err ''truncated tcp response'')
      else
        bindR (get_u8 buf) (\<lambda>(status, buf).
        bindR (read_block ''truncated message'' buf) (\<lambda>(msg_bytes, buf).
        bindR (with_context ''message utf8'' (from_utf8 msg_bytes)) (\<lambda>message.
        bindR (read_block ''truncated padding'' buf) (\<lambda>(_, buf).
        Inr ((status = TCP_STATUS_OK, message), buf))))))"

text \<open>
  \<^verbatim>\<open>err.to_string()\<close> is the message of the error, or of its outermost context.
  The buffer is left as it is unless a response was taken from it.
\<close>

definition try_decode_tcp_response :: "bytes \<Rightarrow> ((bool \<times> string) option \<times> bytes) res" where
  "try_decode_tcp_response buf =
     (if buf = [] then Inr (None, buf)
      else case decode_tcp_response buf of
        Inr (result, rest) \<Rightarrow> Inr (Some result, drop (length buf - length rest) buf)
      | Inl (Err msg) \<Rightarrow> (if contains msg ''truncated'' then Inr (None, buf) else Inl (Err msg))
      | Inl (Panic msg) \<Rightarrow> Inl (Panic msg))"


section \<open>Blocks\<close>

definition put_block :: "bytes \<Rightarrow> bytes" where
  "put_block d = write_varint (of_nat (length d)) @ d"

lemma put_padding_block: "length (fill n) = n \<Longrightarrow> put_padding fill n = put_block (fill n)"
  by (auto simp: put_padding_def put_block_def)

lemma read_block_put [codec_simps]:
  assumes "length d < 2 ^ 62"
  shows "read_block msg (put_block d @ rest) = Inr (d, rest)"
  using assms by (simp add: read_block_def put_block_def codec_simps copy_to_bytes_append)

lemma read_block_prefix:
  assumes "length d < 2 ^ 62" "k < length (put_block d)"
  shows "read_block msg (take k (put_block d)) =
    Inl (Err (if k = 0 then ''empty varint''
      else if k < length (write_varint (of_nat (length d))) then ''truncated varint'' else msg))"
proof -
  let ?v = "write_varint (of_nat (length d))"
  consider "k = 0" | "0 < k" "k < length ?v" | "length ?v \<le> k" by linarith
  then show ?thesis
  proof cases
    case 2
    then show ?thesis by (simp add: read_block_def put_block_def read_varint_truncated)
  next
    case 3
    have "length ?v \<noteq> 0" using read_write_varint [of "of_nat (length d)" "[]"] by auto
    with 3 assms show ?thesis
      by (auto simp: read_block_def put_block_def codec_simps)
  qed (simp add: read_block_def)
qed

lemma not_panics_read_block [simp]: "\<not> panics (read_block msg buf)"
  by (auto simp: read_block_def panics_bindR)

definition text_ok :: "string \<Rightarrow> bool" where
  "text_ok s \<longleftrightarrow> valid_str s \<and> length s < 2 ^ 62"

definition pad_ok :: "(nat \<Rightarrow> bytes) \<Rightarrow> nat \<Rightarrow> bool" where
  "pad_ok fill n \<longleftrightarrow> length (fill n) = n \<and> n < 2 ^ 62"

lemma response_layout:
  "pad_ok fill n \<Longrightarrow> encode_tcp_response fill ok m n =
     (if ok then TCP_STATUS_OK else TCP_STATUS_ERROR) # put_block (as_bytes m) @ put_block (fill n)"
  by (simp add: encode_tcp_response_def put_padding_block pad_ok_def)
     (simp add: put_block_def as_bytes_def)

lemma request_layout:
  "pad_ok fill n \<Longrightarrow> encode_tcp_request fill a n =
     write_varint TCP_REQUEST_ID @ put_block (as_bytes a) @ put_block (fill n)"
  by (simp add: encode_tcp_request_def put_padding_block pad_ok_def)
     (simp add: put_block_def as_bytes_def)

lemma length_as_bytes_eq: "length (as_bytes a) = length a"
  by (simp add: as_bytes_def)

lemma read_request_id: "read_varint (write_varint TCP_REQUEST_ID @ rest) = Inr (TCP_REQUEST_ID, rest)"
  by (simp add: read_write_varint TCP_REQUEST_ID_def)

lemma decode_request:
  assumes "text_ok a" "pad_ok fill n"
  shows "decode_tcp_request (encode_tcp_request fill a n @ rest) = Inr (a, rest)"
  using assms
  by (simp add: request_layout decode_tcp_request_def read_request_id codec_simps text_ok_def pad_ok_def
      length_as_bytes_eq with_context_def)

lemma decode_response:
  assumes "text_ok m" "pad_ok fill n"
  shows "decode_tcp_response (encode_tcp_response fill ok m n @ rest) = Inr ((ok, m), rest)"
  using assms
  by (simp add: response_layout decode_tcp_response_def get_u8_Cons codec_simps text_ok_def pad_ok_def
      length_as_bytes_eq with_context_def TCP_STATUS_OK_def TCP_STATUS_ERROR_def)

lemma read_block_consumes: "read_block msg buf = Inr (d, r) \<Longrightarrow> length r < length buf"
  by (auto simp: read_block_def copy_to_bytes_def split: if_splits dest!: read_varint_length)

lemma request_consumes: "decode_tcp_request bs = Inr (a, r) \<Longrightarrow> length r < length bs"
  by (auto simp: decode_tcp_request_def split: if_splits dest!: read_block_consumes read_varint_length)

lemma response_consumes: "decode_tcp_response bs = Inr (x, r) \<Longrightarrow> length r < length bs"
  by (auto simp: decode_tcp_response_def get_u8_eq_Inr_iff split: if_splits dest!: read_block_consumes)

interpretation tcp_request: consuming_codec "\<lambda>a. encode_tcp_request fill a n" decode_tcp_request
  "\<lambda>a. text_ok a \<and> pad_ok fill n" for fill and n
  by unfold_locales (simp_all add: decode_request request_consumes)

interpretation tcp_response: consuming_codec "\<lambda>x. encode_tcp_response fill (fst x) (snd x) n" decode_tcp_response
  "\<lambda>x. text_ok (snd x) \<and> pad_ok fill n" for fill and n
  by unfold_locales (simp_all add: decode_response response_consumes)


section \<open>Properties\<close>

text \<open>
  A TCP request is read back with its address and exactly its bytes are taken from the
  buffer, also when the first data of the connection follows it; a sequence of requests
  is read back one by one.
\<close>
theorem hy2_tcp_request_roundtrip:
  assumes "text_ok a" "pad_ok fill n"
  shows "decode_tcp_request (encode_tcp_request fill a n @ rest) = Inr (a, rest) \<and>
    decode_many decode_tcp_request k (concat (replicate k (encode_tcp_request fill a n)) @ rest) =
      Inr (replicate k a, rest)"
  using decode_request [OF assms] tcp_request.decode_many_concat [of "replicate k a" fill n rest] assms
  by simp

lemma decode_many_request_short: "text_ok ''a:1''" "pad_ok (\<lambda>n. replicate n 0) 3"
  by (simp_all add: text_ok_def pad_ok_def valid_str_def as_bytes_def)

theorem hy2_tcp_request_roundtrip_witness:
  "decode_tcp_request (encode_tcp_request (\<lambda>n. replicate n 0) ''a:1'' 3 @ [9]) = Inr (''a:1'', [9])"
  using hy2_tcp_request_roundtrip [OF decode_many_request_short, of "[9]"] by simp

text \<open>The message that tells an incomplete response from a malformed one.\<close>

lemma contains_truncated [simp]:
  "contains ''truncated varint'' ''truncated''" "contains ''truncated message'' ''truncated''"
  "contains ''truncated padding'' ''truncated''" "\<not> contains ''empty varint'' ''truncated''"
  by code_simp+

lemma response_prefix:
  assumes "text_ok m" "pad_ok fill n" "0 < k" "k < length (encode_tcp_response fill ok m n)"
  shows "try_decode_tcp_response (take k (encode_tcp_response fill ok m n)) =
    (if k = 1 \<or> k = 1 + length (put_block (as_bytes m)) then Inl (Err ''empty varint'')
     else Inr (None, take k (encode_tcp_response fill ok m n)))"
proof -
  let ?b = "put_block (as_bytes m)" and ?p = "put_block (fill n)"
  let ?s = "if ok then TCP_STATUS_OK else TCP_STATUS_ERROR"
  obtain j where k: "k = Suc j" using assms(3) by (cases k) auto
  have len: "length (as_bytes m) < 2 ^ 62" "length (fill n) < 2 ^ 62" "from_utf8 (as_bytes m) = Some m"
    using assms(1,2) by (simp_all add: text_ok_def pad_ok_def length_as_bytes_eq)
  have t: "take k (encode_tcp_response fill ok m n) = ?s # take j (?b @ ?p)"
    by (simp add: response_layout [OF assms(2)] k)
  show ?thesis
  proof (cases "j < length ?b")
    case True
    then have "decode_tcp_response (?s # take j (?b @ ?p)) =
        Inl (Err (if j = 0 then ''empty varint''
          else if j < length (write_varint (of_nat (length (as_bytes m)))) then ''truncated varint''
          else ''truncated message''))"
      using read_block_prefix [OF len(1) True, of "''truncated message''"]
      by (simp add: decode_tcp_response_def get_u8_Cons)
    then show ?thesis unfolding t using True by (simp add: try_decode_tcp_response_def k)
  next
    case False
    define i where "i = j - length ?b"
    have i: "i < length ?p" using False assms(4) by (simp add: i_def response_layout [OF assms(2)] k)
    have "take j (?b @ ?p) = ?b @ take i ?p" using False by (simp add: i_def)
    then have "decode_tcp_response (?s # take j (?b @ ?p)) =
        Inl (Err (if i = 0 then ''empty varint''
          else if i < length (write_varint (of_nat (length (fill n)))) then ''truncated varint''
          else ''truncated padding''))"
      using read_block_prefix [OF len(2) i, of "''truncated padding''"] len
      by (simp add: decode_tcp_response_def get_u8_Cons read_block_put with_context_def)
    moreover have "?b \<noteq> []" using read_block_put [OF len(1), of "[]" "[]"] by (auto simp: read_block_def)
    then have "j \<noteq> 0" using False by (cases j) auto
    moreover have "i = 0 \<longleftrightarrow> j = length ?b" using False by (auto simp: i_def)
    ultimately show ?thesis unfolding t by (simp add: try_decode_tcp_response_def k)
  qed
qed

text \<open>
  Reading a response that arrives in pieces: the whole response gives the status, the
  message and the bytes after it; a proper prefix leaves the buffer alone and asks for
  more, except after the status byte and after the message, where the missing length is
  reported as the error "empty varint" and the connection attempt fails.
\<close>
theorem hy2_response_incremental:
  assumes "text_ok m" "pad_ok fill n" "k \<le> length (encode_tcp_response fill ok m n)"
  shows "try_decode_tcp_response (encode_tcp_response fill ok m n @ rest) = Inr (Some (ok, m), rest) \<and>
    try_decode_tcp_response (take k (encode_tcp_response fill ok m n)) =
      (if k = length (encode_tcp_response fill ok m n) then Inr (Some (ok, m), [])
       else if k = 1 \<or> k = 1 + length (put_block (as_bytes m)) then Inl (Err ''empty varint'')
       else Inr (None, take k (encode_tcp_response fill ok m n)))"
proof -
  have whole: "try_decode_tcp_response (encode_tcp_response fill ok m n @ rest) = Inr (Some (ok, m), rest)" for rest
    using decode_response [OF assms(1,2), of ok rest]
    by (simp add: try_decode_tcp_response_def response_layout [OF assms(2)])
  show ?thesis
  proof (cases "k = length (encode_tcp_response fill ok m n)")
    case True
    then show ?thesis using whole whole [of "[]"] by simp
  next
    case False
    then have "k < length (encode_tcp_response fill ok m n)" using assms(3) by simp
    then show ?thesis using whole response_prefix [OF assms(1,2), of k ok]
      by (cases "k = 0") (simp_all add: try_decode_tcp_response_def)
  qed
qed

theorem hy2_response_incremental_witness:
  "try_decode_tcp_response (take 1 (encode_tcp_response (\<lambda>n. replicate n 0) True ''a:1'' 3)) =
     Inl (Err ''empty varint'')"
proof -
  have "1 < length (encode_tcp_response (\<lambda>n. replicate n 0) True ''a:1'' 3)"
    by (simp add: encode_tcp_response_def as_bytes_def)
  with hy2_response_incremental [OF decode_many_request_short, of 1 True] show ?thesis by simp
qed

end
