(* ===== verification/Rust_Net.thy ===== *)
theory Rust_Net
  imports Rust_Strings
begin

text \<open>
  The parts of \<^verbatim>\<open>std::net\<close> the program uses: addresses as words, the address parser of
  the standard library, the textual form of an IPv4 address, and the address classes.
\<close>

section \<open>Definitions\<close>

datatype IpAddr = V4 u32 | V6 u128

record SocketAddr =
  sa_ip :: IpAddr
  sa_port :: u16

subsection \<open>Octets and segments\<close>

definition v4_octet :: "u32 \<Rightarrow> nat \<Rightarrow> u8" where
  "v4_octet a i = ucast (drop_bit (8 * (3 - i)) a)"

definition v4_octets :: "u32 \<Rightarrow> u8 list" where
  "v4_octets a = map (v4_octet a) [0, 1, 2, 3]"

definition v4_of :: "u8 \<Rightarrow> u8 \<Rightarrow> u8 \<Rightarrow> u8 \<Rightarrow> u32" where
  "v4_of a b c d = be_fold 0 [a, b, c, d]"

definition v6_octet :: "u128 \<Rightarrow> nat \<Rightarrow> u8" where
  "v6_octet a i = ucast (drop_bit (8 * (15 - i)) a)"

definition v6_segment :: "u128 \<Rightarrow> nat \<Rightarrow> u16" where
  "v6_segment a i = ucast (drop_bit (16 * (7 - i)) a)"

fun v6_of_segments :: "u16 list \<Rightarrow> u128" where
  "v6_of_segments [] = 0"
| "v6_of_segments (s # ss) = push_bit (16 * length ss) (ucast s) OR v6_of_segments ss"

subsection \<open>Parsing\<close>

text \<open>
  The recursive-descent parser of the standard library, on the characters left to read. A
  reader that fails consumes nothing.
\<close>

definition digit_in :: "nat \<Rightarrow> char \<Rightarrow> nat option" where
  "digit_in radix c =
     (let d = (if 48 \<le> code c \<and> code c \<le> 57 then code c - 48
               else if 97 \<le> code c \<and> code c \<le> 122 then code c - 87
               else if 65 \<le> code c \<and> code c \<le> 90 then code c - 55 else 36) in
      if d < radix then Some d else None)"

fun read_digits :: "nat \<Rightarrow> nat \<Rightarrow> nat \<Rightarrow> string \<Rightarrow> nat \<times> nat \<times> string" where
  "read_digits radix acc n [] = (acc, n, [])"
| "read_digits radix acc n (c # cs) =
     (case digit_in radix c of
        None \<Rightarrow> (acc, n, c # cs)
      | Some d \<Rightarrow> read_digits radix (acc * radix + d) (Suc n) cs)"

definition read_number :: "nat \<Rightarrow> nat \<Rightarrow> bool \<Rightarrow> nat \<Rightarrow> string \<Rightarrow> (nat \<times> string) option" where
  "read_number radix max_digits allow_zero_prefix max_value s =
     (let (v, n, r) = read_digits radix 0 0 s; leading_zero = (s \<noteq> [] \<and> hd s = CHR ''0'') in
      if n > max_digits \<or> v > max_value \<or> n = 0 then None
      else if \<not> allow_zero_prefix \<and> leading_zero \<and> n > 1 then None
      else Some (v, r))"

definition read_given_char :: "char \<Rightarrow> string \<Rightarrow> string option" where
  "read_given_char c s = (case s of [] \<Rightarrow> None | x # xs \<Rightarrow> if x = c then Some xs else None)"

definition read_separator ::
  "char \<Rightarrow> nat \<Rightarrow> (string \<Rightarrow> ('a \<times> string) option) \<Rightarrow> string \<Rightarrow> ('a \<times> string) option" where
  "read_separator sep i inner s =
     (if i > 0 then case read_given_char sep s of None \<Rightarrow> None | Some r \<Rightarrow> inner r else inner s)"

definition read_octet :: "nat \<Rightarrow> string \<Rightarrow> (nat \<times> string) option" where
  "read_octet i s = read_separator CHR ''.'' i (read_number 10 3 False 255) s"

definition read_ipv4 :: "string \<Rightarrow> (u32 \<times> string) option" where
  "read_ipv4 s =
     (case read_octet 0 s of None \<Rightarrow> None | Some (a, s) \<Rightarrow>
      case read_octet 1 s of None \<Rightarrow> None | Some (b, s) \<Rightarrow>
      case read_octet 2 s of None \<Rightarrow> None | Some (c, s) \<Rightarrow>
      case read_octet 3 s of None \<Rightarrow> None | Some (d, s) \<Rightarrow>
        Some (v4_of (of_nat a) (of_nat b) (of_nat c) (of_nat d), s))"

text \<open>
  Up to \<open>limit\<close> groups of an IPv6 address starting with group \<open>i\<close>; the flag tells that
  they ended with an embedded IPv4 address.
\<close>

fun read_groups :: "nat \<Rightarrow> nat \<Rightarrow> string \<Rightarrow> u16 list \<times> bool \<times> string" where
  "read_groups 0 i s = ([], False, s)"
| "read_groups (Suc n) i s =
     (case (if n > 0 then read_separator CHR '':'' i read_ipv4 s else None) of
        Some (v4, r) \<Rightarrow> ([ucast (drop_bit 16 v4), ucast v4], True, r)
      | None \<Rightarrow>
          (case read_separator CHR '':'' i (read_number 16 4 True 65535) s of
             None \<Rightarrow> ([], False, s)
           | Some (g, r) \<Rightarrow>
               (let (gs, v4, r') = read_groups n (Suc i) r in (of_nat g # gs, v4, r'))))"

definition read_ipv6 :: "string \<Rightarrow> (u128 \<times> string) option" where
  "read_ipv6 s =
     (let (head, head_v4, r) = read_groups 8 0 s in
      if length head = 8 then Some (v6_of_segments head, r)
      else if head_v4 then None
      else
        case read_given_char CHR '':'' r of None \<Rightarrow> None | Some r \<Rightarrow>
        case read_given_char CHR '':'' r of None \<Rightarrow> None | Some r \<Rightarrow>
          (let (tail, _, r) = read_groups (7 - length head) 0 r in
           Some (v6_of_segments (head @ replicate (8 - length head - length tail) 0 @ tail), r)))"

definition whole_input :: "('a \<times> string) option \<Rightarrow> 'a option" where
  "whole_input x = (case x of Some (v, []) \<Rightarrow> Some v | _ \<Rightarrow> None)"

definition parse_ipv4 :: "string \<Rightarrow> u32 option" where
  "parse_ipv4 s = (if length s > 15 then None else whole_input (read_ipv4 s))"

definition parse_ipv6 :: "string \<Rightarrow> u128 option" where
  "parse_ipv6 s = whole_input (read_ipv6 s)"

definition parse_ip :: "string \<Rightarrow> IpAddr option" where
  "parse_ip s =
     whole_input (case read_ipv4 s of
        Some (a, r) \<Rightarrow> Some (V4 a, r)
      | None \<Rightarrow> (case read_ipv6 s of Some (a, r) \<Rightarrow> Some (V6 a, r) | None \<Rightarrow> None))"

subsection \<open>Display\<close>

definition show_ipv4 :: "u32 \<Rightarrow> string" where
  "show_ipv4 a =
     show_nat (unat (v4_octet a 0)) @ ''.'' @ show_nat (unat (v4_octet a 1)) @ ''.'' @
     show_nat (unat (v4_octet a 2)) @ ''.'' @ show_nat (unat (v4_octet a 3))"

subsection \<open>Classes of addresses\<close>

definition is_unspecified :: "IpAddr \<Rightarrow> bool" where
  "is_unspecified ip = (case ip of V4 a \<Rightarrow> a = 0 | V6 a \<Rightarrow> a = 0)"

definition v4_is_loopback :: "u32 \<Rightarrow> bool" where
  "v4_is_loopback a \<longleftrightarrow> v4_octet a 0 = 127"

definition v4_is_private :: "u32 \<Rightarrow> bool" where
  "v4_is_private a \<longleftrightarrow> v4_octet a 0 = 10 \<or>
     v4_octet a 0 = 172 \<and> 16 \<le> v4_octet a 1 \<and> v4_octet a 1 \<le> 31 \<or>
     v4_octet a 0 = 192 \<and> v4_octet a 1 = 168"

definition v4_is_link_local :: "u32 \<Rightarrow> bool" where
  "v4_is_link_local a \<longleftrightarrow> v4_octet a 0 = 169 \<and> v4_octet a 1 = 254"

definition v4_is_broadcast :: "u32 \<Rightarrow> bool" where
  "v4_is_broadcast a \<longleftrightarrow> a = 0xFFFFFFFF"

definition v4_is_multicast :: "u32 \<Rightarrow> bool" where
  "v4_is_multicast a \<longleftrightarrow> 224 \<le> v4_octet a 0 \<and> v4_octet a 0 \<le> 239"

definition v6_is_loopback :: "u128 \<Rightarrow> bool" where
  "v6_is_loopback a \<longleftrightarrow> a = 1"

definition v6_is_multicast :: "u128 \<Rightarrow> bool" where
  "v6_is_multicast a \<longleftrightarrow> v6_octet a 0 = 0xFF"

definition to_ipv4_mapped :: "u128 \<Rightarrow> u32 option" where
  "to_ipv4_mapped a = (if drop_bit 32 a = 0xFFFF then Some (ucast a) else None)"


section \<open>IPv4 round trip\<close>

lemma digit_in_10: "digit_in 10 c = (if is_digit c then Some (code c - 48) else None)"
  by (auto simp: digit_in_def is_digit_def Let_def)

lemma read_digits_append:
  "\<forall>c\<in>set s. is_digit c \<Longrightarrow> (t = [] \<or> \<not> is_digit (hd t)) \<Longrightarrow>
     \<exists>v. digits_value acc s = Some v \<and> read_digits 10 acc n (s @ t) = (v, n + length s, t)"
proof (induction s arbitrary: acc n)
  case Nil
  then show ?case by (cases t) (auto simp: digit_in_10)
next
  case (Cons c s)
  from Cons.IH [of "acc * 10 + (code c - 48)" "Suc n"] Cons.prems show ?case
    by (simp add: digit_in_10)
qed

lemma show_nat_255:
  assumes "n \<le> 255"
  shows "length (show_nat n) \<le> 3" "1 < length (show_nat n) \<Longrightarrow> hd (show_nat n) \<noteq> CHR ''0''"
proof -
  have s: "show_nat m = (if m < 10 then [char_of (m + 48)] else show_nat (m div 10) @ [char_of (m mod 10 + 48)])" for m
    by (rule show_nat.simps)
  have "n div 10 div 10 < 10" using assms by simp
  then show "length (show_nat n) \<le> 3"
    using s [of n] s [of "n div 10"] s [of "n div 10 div 10"] by simp
  have nz: "char_of (m + 48) \<noteq> CHR ''0''" if "0 < m" "m < 10" for m :: nat
  proof
    assume "char_of (m + 48) = CHR ''0''"
    then have "code (char_of (m + 48)) = code CHR ''0''" by simp
    then show False using that by simp
  qed
  show "hd (show_nat n) \<noteq> CHR ''0''" if "1 < length (show_nat n)"
    using that nz [of "n div 10"] nz [of "n div 10 div 10"] assms
      s [of n] s [of "n div 10"] s [of "n div 10 div 10"]
    by (auto split: if_splits)
qed

lemma read_number_show:
  assumes "n \<le> 255" "t = [] \<or> \<not> is_digit (hd t)"
  shows "read_number 10 3 False 255 (show_nat n @ t) = Some (n, t)"
proof -
  have "\<forall>c\<in>set (show_nat n). is_digit c" using show_nat_digits by blast
  from read_digits_append [OF this assms(2), of 0 0]
  have "read_digits 10 0 0 (show_nat n @ t) = (n, length (show_nat n), t)"
    by (simp add: digits_value_show_nat)
  then show ?thesis
    using show_nat_255 [OF assms(1)] assms(1) by (auto simp: read_number_def)
qed

lemma dot_not_digit [simp]: "\<not> is_digit CHR ''.''"
  by (simp add: is_digit_def)

lemma unat_u8_le [simp]: "unat (x :: u8) \<le> 255"
  using unat_u8_less [of x] by linarith

lemma v4_of_octets: "v4_of (v4_octet a 0) (v4_octet a 1) (v4_octet a 2) (v4_octet a 3) = a"
proof -
  have "be_bytes 4 a = [v4_octet a 0, v4_octet a 1, v4_octet a 2, v4_octet a 3]"
    by (simp add: v4_octet_def)
  then have "v4_of (v4_octet a 0) (v4_octet a 1) (v4_octet a 2) (v4_octet a 3) = be_fold 0 (be_bytes 4 a)"
    by (simp add: v4_of_def)
  then show ?thesis by (simp only: be_fold_be_bytes) (simp add: take_bit_all)
qed

lemma read_show_ipv4:
  assumes "t = [] \<or> \<not> is_digit (hd t)"
  shows "read_ipv4 (show_ipv4 a @ t) = Some (a, t)"
  using assms
  by (simp add: read_ipv4_def show_ipv4_def read_octet_def read_separator_def read_given_char_def
      read_number_show v4_of_octets [unfolded One_nat_def])

lemma length_show_ipv4: "length (show_ipv4 a) \<le> 15"
  using show_nat_255(1) [OF unat_u8_le [of "v4_octet a 0"]] show_nat_255(1) [OF unat_u8_le [of "v4_octet a 1"]]
    show_nat_255(1) [OF unat_u8_le [of "v4_octet a 2"]] show_nat_255(1) [OF unat_u8_le [of "v4_octet a 3"]]
  by (simp add: show_ipv4_def)

lemma parse_show_ipv4 [codec_simps]: "parse_ipv4 (show_ipv4 a) = Some a" "parse_ip (show_ipv4 a) = Some (V4 a)"
  using read_show_ipv4 [of "[]" a] length_show_ipv4 [of a]
  by (simp_all add: parse_ipv4_def parse_ip_def whole_input_def)

end
