(* ===== verification/Config.thy ===== *)
theory Config
  imports Rust_Strings "HOL-Library.AList" "HOL-Library.Char_ord" "HOL-Library.List_Lexorder"
    "HOL-Library.Product_Lexorder"
begin

text \<open>
  The configuration (\<^verbatim>\<open>rsb-config/src/lib.rs\<close>, with the type names of
  \<^verbatim>\<open>rsb-constant/src/lib.rs\<close>) and the outbound table built from it (\<^verbatim>\<open>OutboundManager\<close> of
  \<^verbatim>\<open>rsb-core/src/lib.rs\<close>). JSON values are those of \<^verbatim>\<open>serde_json\<close>; reading the text of a
  configuration into \<open>Options\<close> is \<^verbatim>\<open>serde\<close>'s work and a parameter.
\<close>

section \<open>JSON values\<close>

text \<open>A number is kept as \<^verbatim>\<open>serde_json\<close> keeps it; a float by its bit pattern.\<close>

datatype json_number = PosInt u64 | NegInt int | FloatBits u64

datatype Value = JNull | JBool bool | JNum json_number | JStr string | JArr "Value list"
  | JObj "(string \<times> Value) list"

fun as_str :: "Value \<Rightarrow> string option" where
  "as_str (JStr s) = Some s"
| "as_str _ = None"

fun as_u64 :: "Value \<Rightarrow> u64 option" where
  "as_u64 (JNum (PosInt n)) = Some n"
| "as_u64 _ = None"

fun as_bool :: "Value \<Rightarrow> bool option" where
  "as_bool (JBool b) = Some b"
| "as_bool _ = None"

fun as_array :: "Value \<Rightarrow> Value list option" where
  "as_array (JArr xs) = Some xs"
| "as_array _ = None"

fun json_get :: "Value \<Rightarrow> string \<Rightarrow> Value option" where
  "json_get (JObj kvs) k = map_of kvs k"
| "json_get _ k = None"

definition get_str :: "Value \<Rightarrow> string \<Rightarrow> string option" where
  "get_str v k = Option.bind (json_get v k) as_str"

definition get_number :: "Value \<Rightarrow> string \<Rightarrow> u64 option" where
  "get_number v k = Option.bind (json_get v k) as_u64"

definition get_array :: "Value \<Rightarrow> string \<Rightarrow> Value list option" where
  "get_array v k = Option.bind (json_get v k) as_array"


section \<open>Options\<close>

record LogOptions =
  log_disabled :: bool
  log_level :: string
  log_output :: "string option"

record InboundCfg =
  ib_kind :: string
  ib_tag :: "string option"
  ib_raw :: Value

record OutboundCfg =
  ob_kind :: string
  ob_tag :: "string option"
  ob_raw :: Value

record RouteRule =
  rl_inbound :: "string list"
  rl_network :: "string list"
  rl_port :: "Value list"
  rl_ip_cidr :: "string list"
  rl_domain :: "string list"
  rl_domain_suffix :: "string list"
  rl_domain_keyword :: "string list"
  rl_rule_set :: "string list"
  rl_geosite :: "string list"
  rl_geoip :: "string list"
  rl_ip_is_private :: bool
  rl_source_ip_cidr :: "string list"
  rl_protocol :: "string list"
  rl_process_name :: "string list"
  rl_process_path :: "string list"
  rl_process_path_regex :: "string list"
  rl_outbound :: "string option"

definition RouteRule_default :: RouteRule where
  "RouteRule_default = \<lparr>rl_inbound = [], rl_network = [], rl_port = [], rl_ip_cidr = [], rl_domain = [],
     rl_domain_suffix = [], rl_domain_keyword = [], rl_rule_set = [], rl_geosite = [], rl_geoip = [],
     rl_ip_is_private = False, rl_source_ip_cidr = [], rl_protocol = [], rl_process_name = [],
     rl_process_path = [], rl_process_path_regex = [], rl_outbound = None\<rparr>"

record RuleSet =
  rs_tag :: "string option"
  rs_kind :: "string option"
  rs_format :: "string option"
  rs_path :: "string option"
  rs_url :: "string option"
  rs_urls :: "string list"
  rs_raw :: Value

definition RuleSet_default :: RuleSet where
  "RuleSet_default = \<lparr>rs_tag = None, rs_kind = None, rs_format = None, rs_path = None, rs_url = None,
     rs_urls = [], rs_raw = JNull\<rparr>"

record RouteOptions =
  ro_rules :: "RouteRule list"
  ro_rule_set :: "RuleSet list"
  ro_final_alt :: "string option"
  ro_final_tag :: "string option"
  ro_preset :: "string option"
  ro_direct_tag :: "string option"
  ro_proxy_tag :: "string option"
  ro_auto_detect_interface :: bool
  ro_default_interface :: "string option"
  ro_download_path :: "string option option"

record DnsServerCfg =
  ds_tag :: "string option"
  ds_address :: "string option"
  ds_detour :: "string option"
  ds_raw :: Value

record DnsOptions =
  do_servers :: "DnsServerCfg list"
  do_rules :: "Value list"
  do_final_tag :: "string option"
  do_strategy :: "string option"
  do_fakeip :: "Value option"

record OutboundProvider =
  op_kind :: string
  op_url :: string
  op_tag :: "string option"
  op_user_agent :: "string option"
  op_selector_tag :: "string option"

record Options =
  op_log :: LogOptions
  op_dns :: "DnsOptions option"
  op_inbounds :: "InboundCfg list"
  op_outbounds :: "OutboundCfg list"
  op_route :: "RouteOptions option"
  op_outbound_providers :: "OutboundProvider list"

subsection \<open>Type names\<close>

definition TYPE_HYSTERIA2 :: string where "TYPE_HYSTERIA2 = ''hysteria2''"
definition TYPE_RSQ :: string where "TYPE_RSQ = ''rsq''"
definition TYPE_RST :: string where "TYPE_RST = ''rst''"

definition ALL_INBOUND_TYPES :: "string list" where
  "ALL_INBOUND_TYPES = [''mixed'', ''http'', ''socks'', ''direct'', ''dns'', TYPE_HYSTERIA2, TYPE_RSQ,
     TYPE_RST, ''tun'']"

definition ALL_OUTBOUND_TYPES :: "string list" where
  "ALL_OUTBOUND_TYPES = [''direct'', ''block'', ''dns'', ''selector'', ''urltest'', ''fallback'',
     TYPE_HYSTERIA2, TYPE_RSQ, TYPE_RST]"

definition is_known_inbound :: "string \<Rightarrow> bool" where
  "is_known_inbound kind \<longleftrightarrow> kind \<in> set ALL_INBOUND_TYPES"

definition is_known_outbound :: "string \<Rightarrow> bool" where
  "is_known_outbound kind \<longleftrightarrow> kind \<in> set ALL_OUTBOUND_TYPES"

subsection \<open>Validation and tags\<close>

text \<open>One of the two loops over tags; \<open>seen\<close> is the set of the tags met so far.\<close>

fun insert_tags :: "string \<Rightarrow> string \<Rightarrow> string option list \<Rightarrow> string list \<Rightarrow> string list res" where
  "insert_tags pre msg [] seen = Inr seen"
| "insert_tags pre msg (None # ts) seen = insert_tags pre msg ts seen"
| "insert_tags pre msg (Some t # ts) seen =
     (if pre @ t \<in> set seen then Inl (Err (msg @ t)) else insert_tags pre msg ts ((pre @ t) # seen))"

definition validate :: "Options \<Rightarrow> unit res" where
  "validate opts =
     (if op_inbounds opts = [] \<and> op_outbounds opts = []
      then Inl (Err ''config must contain at least one inbound or outbound'')
      else
        bindR (insert_tags ''out:'' ''duplicate outbound tag: '' (map ob_tag (op_outbounds opts)) []) (\<lambda>tags.
        bindR (insert_tags ''in:'' ''duplicate inbound tag: '' (map ib_tag (op_inbounds opts)) tags) (\<lambda>_.
        Inr ())))"

definition from_json :: "(string \<Rightarrow> Options option) \<Rightarrow> string \<Rightarrow> Options res" where
  "from_json serde txt =
     bindR (with_context ''parse config json'' (serde txt)) (\<lambda>opts.
     bindR (validate opts) (\<lambda>_. Inr opts))"

definition route_final :: "Options \<Rightarrow> string option" where
  "route_final opts =
     (case op_route opts of
        None \<Rightarrow> None
      | Some r \<Rightarrow> (case ro_final_tag r of Some t \<Rightarrow> Some t | None \<Rightarrow> ro_final_alt r))"

definition inbound_tag :: "InboundCfg \<Rightarrow> nat \<Rightarrow> string" where
  "inbound_tag ib i = (case ib_tag ib of Some t \<Rightarrow> t | None \<Rightarrow> show_nat i)"

definition outbound_tag :: "OutboundCfg \<Rightarrow> nat \<Rightarrow> string" where
  "outbound_tag ob i = (case ob_tag ob of Some t \<Rightarrow> t | None \<Rightarrow> show_nat i)"

definition default_outbound_tag :: "Options \<Rightarrow> string res" where
  "default_outbound_tag opts =
     (case route_final opts of
        Some tag \<Rightarrow> Inr tag
      | None \<Rightarrow>
          (case op_outbounds opts of
             [] \<Rightarrow> Inl (Err ''no outbounds configured'')
           | first # _ \<Rightarrow> Inr (outbound_tag first 0)))"

definition UDP_KINDS :: "string list" where
  "UDP_KINDS = [TYPE_RSQ, TYPE_RST, TYPE_HYSTERIA2]"

definition udp_endpoint :: "OutboundCfg \<Rightarrow> (string \<times> u16) option" where
  "udp_endpoint ob =
     (if \<not> list_ex (\<lambda>k. eq_ignore_ascii_case (ob_kind ob) k) UDP_KINDS then None
      else
        let server = trim (case get_str (ob_raw ob) ''server'' of Some s \<Rightarrow> s | None \<Rightarrow> []) in
        if server = [] then None
        else
          let port = ucast (case get_number (ob_raw ob) ''server_port'' of
                Some n \<Rightarrow> n
              | None \<Rightarrow> (case get_number (ob_raw ob) ''port'' of Some n \<Rightarrow> n | None \<Rightarrow> 0)) in
          if port = 0 then None else Some (server, port))"

definition udp_tunnel_endpoints :: "Options \<Rightarrow> (string \<times> u16) list" where
  "udp_tunnel_endpoints opts = remdups_adj (sort (List.map_filter udp_endpoint (op_outbounds opts)))"


section \<open>The outbound table\<close>

text \<open>
  \<^verbatim>\<open>OutboundManager\<close>, over the tags of the outbounds in order. The index is filled
  front to back, so that a repeated tag keeps its last position.
\<close>

record OutboundManager =
  om_outbounds :: "string list"
  om_default_tag :: string
  om_index :: "(string \<times> nat) list"

definition build_index :: "string list \<Rightarrow> (string \<times> nat) list" where
  "build_index tags = fold (\<lambda>(i, t) m. AList.update t i m) (enumerate 0 tags) []"

definition outbound_manager_new :: "string list \<Rightarrow> string \<Rightarrow> OutboundManager res" where
  "outbound_manager_new tags default_tag =
     (let ix = build_index tags in
      if map_of ix default_tag = None then Inl (Err (''default outbound tag not found: '' @ default_tag))
      else Inr \<lparr>om_outbounds = tags, om_default_tag = default_tag, om_index = ix\<rparr>)"

text \<open>The position of the outbound that is returned, and a panic if it were out of range.\<close>

definition om_get :: "OutboundManager \<Rightarrow> string \<Rightarrow> nat res" where
  "om_get om tag =
     (case map_of (om_index om) tag of
        None \<Rightarrow> Inl (Err (''outbound not found: '' @ tag))
      | Some i \<Rightarrow> bindR (idx (om_outbounds om) i) (\<lambda>_. Inr i))"

definition om_default :: "OutboundManager \<Rightarrow> nat res" where
  "om_default om = om_get om (om_default_tag om)"

definition om_tags :: "OutboundManager \<Rightarrow> string list" where
  "om_tags om = om_outbounds om"


section \<open>Validation\<close>

definition some_tags :: "string option list \<Rightarrow> string list" where
  "some_tags ts = List.map_filter (\<lambda>t. t) ts"

lemma some_tags_simps [simp]:
  "some_tags [] = []" "some_tags (None # ts) = some_tags ts" "some_tags (Some t # ts) = t # some_tags ts"
  by (simp_all add: some_tags_def List.map_filter_def)

lemma insert_tags_ok_iff:
  "insert_tags pre msg ts seen = Inr seen' \<longleftrightarrow>
     distinct (some_tags ts) \<and> (\<forall>t\<in>set (some_tags ts). pre @ t \<notin> set seen) \<and>
     seen' = rev (map (\<lambda>t. pre @ t) (some_tags ts)) @ seen"
  by (induction pre msg ts seen rule: insert_tags.induct) auto

lemma insert_tags_error:
  "insert_tags pre msg ts seen = Inl e \<Longrightarrow> \<exists>t\<in>set (some_tags ts). e = Err (msg @ t)"
  by (induction pre msg ts seen rule: insert_tags.induct) (auto split: if_splits)

lemma insert_tags_total: "(\<exists>seen'. insert_tags pre msg ts seen = Inr seen') \<longleftrightarrow>
     distinct (some_tags ts) \<and> (\<forall>t\<in>set (some_tags ts). pre @ t \<notin> set seen)"
  by (simp add: insert_tags_ok_iff)

text \<open>
  A configuration is accepted exactly if it has an inbound or an outbound and no two
  outbounds and no two inbounds carry the same explicit tag; an inbound and an outbound
  may share one.
\<close>
theorem validate_iff:
  "validate opts = Inr () \<longleftrightarrow>
     \<not> (op_inbounds opts = [] \<and> op_outbounds opts = []) \<and>
     distinct (some_tags (map ob_tag (op_outbounds opts))) \<and>
     distinct (some_tags (map ib_tag (op_inbounds opts)))"
proof -
  have "''in:'' @ t \<notin> set (rev (map (\<lambda>t. ''out:'' @ t) ts) @ [])" for t ts by auto
  then show ?thesis
    by (auto simp: validate_def insert_tags_ok_iff)
qed

section \<open>Looking up outbounds\<close>

lemma build_index_snoc: "build_index (tags @ [t]) = AList.update t (length tags) (build_index tags)"
  by (simp add: build_index_def enumerate_append_eq)

lemma build_index_lookup:
  "map_of (build_index tags) t = Some i \<longleftrightarrow>
     i < length tags \<and> tags ! i = t \<and> t \<notin> set (drop (Suc i) tags)"
proof (induction tags arbitrary: i rule: rev_induct)
  case Nil
  show ?case by (simp add: build_index_def)
next
  case (snoc x tags)
  show ?case
  proof (cases "t = x")
    case True
    then show ?thesis by (auto simp: build_index_snoc update_conv' nth_append less_Suc_eq)
  next
    case False
    then show ?thesis using snoc by (auto simp: build_index_snoc update_conv' nth_append less_Suc_eq)
  qed
qed

lemma build_index_dom: "map_of (build_index tags) t \<noteq> None \<longleftrightarrow> t \<in> set tags"
  by (induction tags rule: rev_induct)
    (auto simp: build_index_snoc update_conv' build_index_def [of "[]"])

text \<open>
  The outbound table finds every tag and nothing else: it can be built exactly if the
  default tag is among the tags; then a lookup gives the last outbound with that tag (the only
  one, if tags are distinct) and the error "outbound not found" for a tag that is not there,
  never a panic, and the default lookup always succeeds.
\<close>
theorem outbound_manager_correct:
  assumes "outbound_manager_new tags d = Inr om"
  shows "d \<in> set tags \<and> om_default om = om_get om d \<and>
    (case om_get om t of
       Inr i \<Rightarrow> i < length tags \<and> tags ! i = t \<and> t \<notin> set (drop (Suc i) tags)
     | Inl e \<Rightarrow> t \<notin> set tags \<and> e = Err (''outbound not found: '' @ t)) \<and>
    is_ok (om_default om)"
proof -
  have d: "d \<in> set tags" and om: "om = \<lparr>om_outbounds = tags, om_default_tag = d, om_index = build_index tags\<rparr>"
    using assms build_index_dom [of tags d]
    by (auto simp: outbound_manager_new_def Let_def split: if_splits)
  have get: "case om_get om t of
       Inr i \<Rightarrow> i < length tags \<and> tags ! i = t \<and> t \<notin> set (drop (Suc i) tags)
     | Inl e \<Rightarrow> t \<notin> set tags \<and> e = Err (''outbound not found: '' @ t)" for t
  proof (cases "map_of (build_index tags) t")
    case None
    then show ?thesis using build_index_dom [of tags t] by (simp add: om_get_def om)
  next
    case (Some i)
    then show ?thesis using build_index_lookup [of tags t i] by (simp add: om_get_def om)
  qed
  moreover have "om_default om = om_get om d" by (simp add: om_default_def om)
  moreover have "is_ok (om_get om d)" using get [of d] d by (cases "om_get om d") auto
  ultimately show ?thesis using d by simp
qed

theorem outbound_manager_correct_witness:
  "\<exists>om. outbound_manager_new [''a'', ''b'', ''a''] ''b'' = Inr om \<and> is_ok (om_default om)"
proof -
  have "map_of (build_index [''a'', ''b'', ''a'']) ''b'' = Some 1"
    by (simp add: build_index_lookup)
  then obtain om where om: "outbound_manager_new [''a'', ''b'', ''a''] ''b'' = Inr om"
    by (simp add: outbound_manager_new_def Let_def)
  with outbound_manager_correct [OF om] show ?thesis by blast
qed

definition out_cfg :: "string option \<Rightarrow> OutboundCfg" where
  "out_cfg t = \<lparr>ob_kind = ''direct'', ob_tag = t, ob_raw = JNull\<rparr>"

definition all_outbound_tags :: "Options \<Rightarrow> string list" where
  "all_outbound_tags opts = map (\<lambda>(i, ob). outbound_tag ob i) (enumerate 0 (op_outbounds opts))"

text \<open>
  The check for duplicates does not see the tags that stand for missing ones: an outbound
  without a tag is known by its position, and a configuration in which a later outbound
  has that position as its explicit tag passes validation. The default outbound, meant to be the
  first, is then the later one.
\<close>
theorem implicit_tag_collision:
  "\<exists>opts om. validate opts = Inr () \<and> default_outbound_tag opts = Inr ''0'' \<and>
     all_outbound_tags opts = [''0'', ''0''] \<and>
     outbound_manager_new (all_outbound_tags opts) ''0'' = Inr om \<and> om_default om = Inr 1"
proof -
  define opts where "opts = \<lparr>op_log = \<lparr>log_disabled = False, log_level = ''info'', log_output = None\<rparr>,
    op_dns = None, op_inbounds = [], op_outbounds = [out_cfg None, out_cfg (Some ''0'')],
    op_route = None, op_outbound_providers = []\<rparr>"
  have z: "show_nat 0 = ''0''" by code_simp
  have tags: "all_outbound_tags opts = [''0'', ''0'']"
    by (simp add: all_outbound_tags_def opts_def out_cfg_def outbound_tag_def z)
  have ix: "map_of (build_index [''0'', ''0'']) ''0'' = Some 1"
    by (simp add: build_index_lookup)
  define om where "om = \<lparr>om_outbounds = [''0'', ''0''], om_default_tag = ''0'', om_index = build_index [''0'', ''0'']\<rparr>"
  have "validate opts = Inr ()" by (simp add: validate_def opts_def out_cfg_def)
  moreover have "default_outbound_tag opts = Inr ''0''"
    by (simp add: default_outbound_tag_def route_final_def opts_def out_cfg_def outbound_tag_def z)
  moreover have "outbound_manager_new (all_outbound_tags opts) ''0'' = Inr om"
    by (simp add: tags outbound_manager_new_def ix om_def)
  moreover have "om_default om = Inr 1" by (simp add: om_default_def om_get_def om_def ix)
  ultimately show ?thesis using tags by blast
qed

section \<open>Endpoints of UDP tunnels\<close>

lemma set_map_filter: "set (List.map_filter f xs) = {y. \<exists>x\<in>set xs. f x = Some y}"
  by (force simp: List.map_filter_def)

lemma sorted_remdups_adj_distinct: "sorted xs \<Longrightarrow> distinct (remdups_adj xs)"
  by (induction xs rule: remdups_adj.induct) (force simp: order_less_le)+

text \<open>
  The list of tunnel endpoints that must stay reachable is sorted, free of repetitions
  and complete: it holds exactly the server and nonzero port of every outbound of kind rsq, rst
  or hysteria2 (in any case), and no empty server.
\<close>
theorem udp_tunnel_endpoints_correct:
  "sorted (udp_tunnel_endpoints opts) \<and> distinct (udp_tunnel_endpoints opts) \<and>
   set (udp_tunnel_endpoints opts) = {e. \<exists>ob\<in>set (op_outbounds opts). udp_endpoint ob = Some e} \<and>
   list_all (\<lambda>(server, port). server \<noteq> [] \<and> port \<noteq> 0) (udp_tunnel_endpoints opts)"
proof -
  let ?es = "List.map_filter udp_endpoint (op_outbounds opts)"
  have "sorted (udp_tunnel_endpoints opts)"
    by (simp add: udp_tunnel_endpoints_def sorted_remdups_adj)
  moreover have "distinct (udp_tunnel_endpoints opts)"
    by (simp add: udp_tunnel_endpoints_def sorted_remdups_adj_distinct)
  moreover have set: "set (udp_tunnel_endpoints opts) = {e. \<exists>ob\<in>set (op_outbounds opts). udp_endpoint ob = Some e}"
    by (simp add: udp_tunnel_endpoints_def set_map_filter)
  moreover have "server \<noteq> [] \<and> port \<noteq> 0" if "udp_endpoint ob = Some (server, port)" for ob server port
    using that by (auto simp: udp_endpoint_def Let_def split: if_splits)
  ultimately show ?thesis by (auto simp: list_all_iff)
qed

end
