(* ===== verification/Route_Match.thy ===== *)
theory Route_Match
  imports Rust_Net Config
begin

text \<open>
  The matchers of the router (\<^verbatim>\<open>rsb-route/src/lib.rs\<close>): domains, address blocks, ports,
  processes, and the compiled rule sets; \<^verbatim>\<open>is_private_ip\<close> of \<^verbatim>\<open>rsb-core/src/interface.rs\<close>
  and the destination policy of \<^verbatim>\<open>rst/dest.rs\<close>. Shifts behave as in a build without
  overflow checks, where the amount is taken modulo the width (a debug build panics
  instead). A \<^verbatim>\<open>HashSet\<close> is the list of its elements. \<open>regex\<close> stands for the crate of
  that name: the verdict of a pattern on a text, or \<open>None\<close> for a malformed pattern.
\<close>

section \<open>Definitions\<close>

subsection \<open>Private and forbidden addresses\<close>

definition is_private_ip :: "IpAddr \<Rightarrow> bool" where
  "is_private_ip ip =
     (case ip of
        V4 a \<Rightarrow> v4_octet a 0 = 10
          \<or> (v4_octet a 0 = 172 \<and> 16 \<le> v4_octet a 1 \<and> v4_octet a 1 \<le> 31)
          \<or> (v4_octet a 0 = 192 \<and> v4_octet a 1 = 168)
          \<or> v4_octet a 0 = 127
          \<or> (v4_octet a 0 = 169 \<and> v4_octet a 1 = 254)
      | V6 a \<Rightarrow> (\<forall>i\<in>set [0..<16]. v6_octet a i = 0)
          \<or> (\<forall>i\<in>set [0..<15]. v6_octet a i = 0) \<and> v6_octet a 15 = 1
          \<or> v6_octet a 0 AND 0xfe = 0xfc
          \<or> (v6_octet a 0 = 0xfe \<and> v6_octet a 1 AND 0xc0 = 0x80))"

definition is_public_v4 :: "u32 \<Rightarrow> bool" where
  "is_public_v4 a =
     (let o0 = v4_octet a 0; o1 = v4_octet a 1; o2 = v4_octet a 2 in
      if is_unspecified (V4 a) \<or> v4_is_loopback a \<or> v4_is_private a \<or> v4_is_link_local a
         \<or> v4_is_broadcast a \<or> v4_is_multicast a then False
      else if o0 = 100 \<and> o1 AND 0xc0 = 64 then False
      else if o0 = 192 \<and> o1 = 0 \<and> o2 = 0 then False
      else if o0 = 192 \<and> o1 = 0 \<and> o2 = 2 then False
      else if o0 = 198 \<and> o1 = 51 \<and> o2 = 100 then False
      else if o0 = 203 \<and> o1 = 0 \<and> o2 = 113 then False
      else if o0 = 198 \<and> o1 AND 0xfe = 18 then False
      else True)"

definition is_public_v6 :: "u128 \<Rightarrow> bool" where
  "is_public_v6 a =
     (if is_unspecified (V6 a) \<or> v6_is_loopback a \<or> v6_is_multicast a then False
      else if (case to_ipv4_mapped a of Some v4 \<Rightarrow> \<not> is_public_v4 v4 | None \<Rightarrow> False) then False
      else if v6_segment a 0 AND 0xfe00 = 0xfc00 then False
      else if v6_segment a 0 AND 0xffc0 = 0xfe80 then False
      else True)"

definition is_public_global :: "IpAddr \<Rightarrow> bool" where
  "is_public_global ip = (case ip of V4 a \<Rightarrow> is_public_v4 a | V6 a \<Rightarrow> is_public_v6 a)"

definition is_forbidden_dest :: "SocketAddr \<Rightarrow> bool \<Rightarrow> bool" where
  "is_forbidden_dest addr allow_private =
     (if allow_private then False else \<not> is_public_global (sa_ip addr))"

subsection \<open>Address blocks\<close>

definition wrapping_shl :: "'a::len word \<Rightarrow> nat \<Rightarrow> 'a word" where
  "wrapping_shl w n = push_bit (n mod LENGTH('a)) w"

definition cidr_mask :: "nat \<Rightarrow> 'a::len word" where
  "cidr_mask prefix_len =
     (if prefix_len \<ge> LENGTH('a) then - 1 else wrapping_shl (- 1) (LENGTH('a) - prefix_len))"

definition ip_in_cidr :: "IpAddr \<Rightarrow> string \<Rightarrow> bool" where
  "ip_in_cidr ip cidr =
     (case split_once CHR ''/'' cidr of
        None \<Rightarrow> False
      | Some (net, pre) \<Rightarrow>
          (case parse_ip net of
             None \<Rightarrow> False
           | Some net_ip \<Rightarrow>
               (case parse_uint 255 pre of
                  None \<Rightarrow> False
                | Some prefix_len \<Rightarrow>
                    (case (ip, net_ip) of
                       (V4 a, V4 b) \<Rightarrow> a AND cidr_mask prefix_len = b AND cidr_mask prefix_len
                     | (V6 a, V6 b) \<Rightarrow> a AND cidr_mask prefix_len = b AND cidr_mask prefix_len
                     | _ \<Rightarrow> False))))"

definition ip_in_range :: "IpAddr \<Rightarrow> IpAddr \<Rightarrow> IpAddr \<Rightarrow> bool" where
  "ip_in_range ip from to =
     (case (ip, from, to) of
        (V4 a, V4 f, V4 t) \<Rightarrow> a \<ge> f \<and> a \<le> t
      | (V6 a, V6 f, V6 t) \<Rightarrow> a \<ge> f \<and> a \<le> t
      | _ \<Rightarrow> False)"

subsection \<open>Ports\<close>

definition port_entry_matches :: "Value \<Rightarrow> u16 \<Rightarrow> bool" where
  "port_entry_matches p port =
     (case as_u64 p of
        Some n \<Rightarrow> ucast n = port
      | None \<Rightarrow>
          (case as_str p of
             None \<Rightarrow> False
           | Some s \<Rightarrow>
               if CHR '':'' \<in> set s then
                 (let pr = (case rsplit_once CHR '':'' s of Some (_, pr) \<Rightarrow> pr | None \<Rightarrow> s) in
                  parse_uint 65535 pr = Some (unat port))
               else if CHR ''-'' \<in> set s then
                 (let parts = split_char CHR ''-'' s in
                  if length parts = 2 then
                    (case (parse_uint 65535 (parts ! 0), parse_uint 65535 (parts ! 1)) of
                       (Some from, Some to) \<Rightarrow> unat port \<ge> from \<and> unat port \<le> to
                     | _ \<Rightarrow> False)
                  else False)
               else parse_uint 65535 s = Some (unat port)))"

fun port_rule_matches :: "Value list \<Rightarrow> u16 \<Rightarrow> bool" where
  "port_rule_matches [] port = False"
| "port_rule_matches (p # ps) port = (if port_entry_matches p port then True else port_rule_matches ps port)"

subsection \<open>Domains and processes\<close>

definition strip_suffix_rule :: "string \<Rightarrow> string" where
  "strip_suffix_rule s = trim_start_char CHR ''.'' (trim_start_char CHR ''*'' s)"

definition domain_matches_suffix :: "string \<Rightarrow> string \<Rightarrow> bool" where
  "domain_matches_suffix domain suffix =
     (let s = trim (strip_suffix_rule suffix) in
      if s = [] then False
      else eq_ignore_ascii_case domain s \<or>
        length domain > length s \<and>
        domain ! (length domain - length s - 1) = CHR ''.'' \<and>
        eq_ignore_ascii_case (drop (length domain - length s) domain) s)"

definition process_name_matches :: "string \<Rightarrow> string \<Rightarrow> bool" where
  "process_name_matches expected actual = eq_ignore_ascii_case expected actual"

text \<open>\<^verbatim>\<open>Path::file_name\<close> on Unix: the last component, unless it is \<^verbatim>\<open>..\<close>.\<close>

definition file_name :: "string \<Rightarrow> string option" where
  "file_name p =
     (case rev (filter (\<lambda>c. c \<noteq> [] \<and> c \<noteq> ''.'') (split_char CHR ''/'' p)) of
        [] \<Rightarrow> None
      | c # _ \<Rightarrow> if c = ''..'' then None else Some c)"

definition process_path_matches :: "string \<Rightarrow> string \<Rightarrow> bool" where
  "process_path_matches expected actual \<longleftrightarrow>
     eq_ignore_ascii_case expected actual \<or>
     (case file_name actual of Some name \<Rightarrow> eq_ignore_ascii_case expected name | None \<Rightarrow> False)"

definition process_path_regex_matches :: "(string \<Rightarrow> string \<Rightarrow> bool option) \<Rightarrow> string \<Rightarrow> string \<Rightarrow> bool" where
  "process_path_regex_matches regex pat path = (case regex pat path of Some b \<Rightarrow> b | None \<Rightarrow> False)"

subsection \<open>Compiled rule sets\<close>

record CompiledRuleSet =
  cr_domains :: "string list"
  cr_domain_suffixes :: "string list"
  cr_domain_keywords :: "string list"
  cr_ip_cidrs :: "string list"
  cr_ip_ranges :: "(IpAddr \<times> IpAddr) list"
  cr_domain_set :: "string list"
  cr_suffix_set :: "string list"

definition finalize :: "CompiledRuleSet \<Rightarrow> CompiledRuleSet" where
  "finalize rs = rs\<lparr>
     cr_domain_set := map to_ascii_lowercase (cr_domains rs),
     cr_suffix_set := filter (\<lambda>s. s \<noteq> [])
       (map (\<lambda>s. to_ascii_lowercase (strip_suffix_rule s)) (cr_domain_suffixes rs))\<rparr>"

fun suffix_loop :: "string list \<Rightarrow> nat \<Rightarrow> string \<Rightarrow> bool" where
  "suffix_loop suffixes 0 rest = False"
| "suffix_loop suffixes (Suc n) rest =
     (case split_once CHR ''.'' rest of
        None \<Rightarrow> False
      | Some (_, rest) \<Rightarrow> if rest \<in> set suffixes then True else suffix_loop suffixes n rest)"

text \<open>The loop drops a label in each turn, so the length of the host bounds it.\<close>

definition domain_matches_suffix_set :: "string \<Rightarrow> string list \<Rightarrow> bool" where
  "domain_matches_suffix_set host suffixes =
     (if suffixes = [] then False
      else if host \<in> set suffixes then True
      else suffix_loop suffixes (length host) host)"

datatype Network = Tcp | Udp

record Metadata =
  md_network :: Network
  md_source :: "SocketAddr option"
  md_destination :: "SocketAddr option"
  md_domain :: "string option"
  md_protocol :: "string option"
  md_process_name :: "string option"
  md_process_path :: "string option"
  md_inbound_tag :: string
  md_inbound_type :: string
  md_user :: "string option"

definition geoip_rule_set_matches :: "CompiledRuleSet \<Rightarrow> IpAddr \<Rightarrow> bool" where
  "geoip_rule_set_matches rs ip \<longleftrightarrow>
     list_ex (\<lambda>c. ip_in_cidr ip c) (cr_ip_cidrs rs) \<or>
     list_ex (\<lambda>(f, t). ip_in_range ip f t) (cr_ip_ranges rs)"

definition rule_set_matches :: "CompiledRuleSet \<Rightarrow> Metadata \<Rightarrow> bool" where
  "rule_set_matches rs md \<longleftrightarrow>
     (case md_domain md of
        None \<Rightarrow> False
      | Some domain \<Rightarrow>
          (let host = to_ascii_lowercase domain in
           host \<in> set (cr_domain_set rs) \<or> domain_matches_suffix_set host (cr_suffix_set rs) \<or>
           list_ex (\<lambda>k. contains host (to_ascii_lowercase k)) (cr_domain_keywords rs))) \<or>
     (case md_destination md of
        None \<Rightarrow> False
      | Some dest \<Rightarrow> geoip_rule_set_matches rs (sa_ip dest))"


section \<open>Suffixes match at label boundaries\<close>

text \<open>A suffix of a host that starts at a label: what precedes it is empty or ends with a dot.\<close>

definition label_suffix :: "string \<Rightarrow> string \<Rightarrow> bool" where
  "label_suffix host s \<longleftrightarrow> (\<exists>p. (p = [] \<or> last p = CHR ''.'') \<and> host = p @ s)"

lemma to_ascii_lowercase_nth: "i < length s \<Longrightarrow> to_ascii_lowercase s ! i = lower_char (s ! i)"
  by (simp add: to_ascii_lowercase_def)

lemma to_ascii_lowercase_drop: "to_ascii_lowercase (drop n s) = drop n (to_ascii_lowercase s)"
  by (simp add: to_ascii_lowercase_def drop_map)

lemma domain_matches_suffix_iff [route_simps]:
  "domain_matches_suffix domain suffix \<longleftrightarrow>
     (let s = trim (strip_suffix_rule suffix) in
      s \<noteq> [] \<and> label_suffix (to_ascii_lowercase domain) (to_ascii_lowercase s))"
proof -
  define s where "s = trim (strip_suffix_rule suffix)"
  let ?d = "to_ascii_lowercase domain" and ?s = "to_ascii_lowercase s"
  let ?k = "length domain - length s"
  have "label_suffix ?d ?s \<longleftrightarrow> ?d = ?s \<or>
      length domain > length s \<and> domain ! (?k - 1) = CHR ''.'' \<and> drop ?k ?d = ?s" (is "_ \<longleftrightarrow> ?R")
  proof
    assume "label_suffix ?d ?s"
    then obtain p where p: "p = [] \<or> last p = CHR ''.''" "?d = p @ ?s" by (auto simp: label_suffix_def)
    have len: "length domain = length p + length s"
      using arg_cong [OF p(2), of length] by simp
    show ?R
    proof (cases "p = []")
      case False
      then have "?d ! (length p - 1) = CHR ''.''" using p by (simp add: nth_append last_conv_nth)
      moreover have "length p - 1 < length domain" using False len by (cases p) auto
      ultimately have "domain ! (length p - 1) = CHR ''.''" by (simp add: to_ascii_lowercase_nth)
      then show ?thesis using False len p(2) by simp
    qed (use p in simp)
  next
    assume ?R
    then show "label_suffix ?d ?s"
    proof
      assume r: "length domain > length s \<and> domain ! (?k - 1) = CHR ''.'' \<and> drop ?k ?d = ?s"
      have "last (take ?k ?d) = ?d ! (?k - 1)"
        using r by (subst last_conv_nth) auto
      also have "\<dots> = CHR ''.''"
        using r by (subst to_ascii_lowercase_nth) auto
      finally have "last (take ?k ?d) = CHR ''.''" .
      then show ?thesis
        using r unfolding label_suffix_def by (metis append_take_drop_id)
    qed (auto simp: label_suffix_def)
  qed
  then show ?thesis
    by (simp add: domain_matches_suffix_def Let_def eq_ignore_ascii_case_def to_ascii_lowercase_drop
        flip: s_def)
qed

lemma suffix_loop_iff:
  "length rest \<le> n \<Longrightarrow> suffix_loop S n rest \<longleftrightarrow>
     (\<exists>p s. s \<in> set S \<and> p \<noteq> [] \<and> last p = CHR ''.'' \<and> rest = p @ s)"
proof (induction n arbitrary: rest)
  case (Suc n)
  show ?case
  proof (cases "split_once CHR ''.'' rest")
    case None
    then have "CHR ''.'' \<notin> set rest" by simp
    then have "\<not> (\<exists>p s. s \<in> set S \<and> p \<noteq> [] \<and> last p = CHR ''.'' \<and> rest = p @ s)"
      using last_in_set by fastforce
    with None show ?thesis by (simp only: suffix_loop.simps option.case)
  next
    case (Some ab)
    obtain a b where ab: "ab = (a, b)" by (cases ab)
    have rest: "rest = a @ CHR ''.'' # b" "CHR ''.'' \<notin> set a"
      using split_once_SomeD Some ab by auto
    have "(\<exists>p s. s \<in> set S \<and> p \<noteq> [] \<and> last p = CHR ''.'' \<and> rest = p @ s) \<longleftrightarrow>
        b \<in> set S \<or> (\<exists>p s. s \<in> set S \<and> p \<noteq> [] \<and> last p = CHR ''.'' \<and> b = p @ s)" (is "?L \<longleftrightarrow> ?R")
    proof
      assume ?L
      then obtain p s where p: "s \<in> set S" "p \<noteq> []" "last p = CHR ''.''" "a @ CHR ''.'' # b = p @ s"
        using rest by auto
      have "\<exists>q. p = a @ CHR ''.'' # q"
        using p rest(2) last_in_set [OF p(2)]
        by (auto simp: append_eq_append_conv2 append_eq_Cons_conv Cons_eq_append_conv)
      then obtain q where q: "p = a @ CHR ''.'' # q" by blast
      then show ?R using p by (cases "q = []") auto
    next
      assume ?R
      then show ?L
      proof
        assume "b \<in> set S"
        then show ?L using rest by (intro exI [of _ "a @ ''.''"] exI [of _ b]) simp
      next
        assume "\<exists>p s. s \<in> set S \<and> p \<noteq> [] \<and> last p = CHR ''.'' \<and> b = p @ s"
        then obtain p s where "s \<in> set S" "p \<noteq> []" "last p = CHR ''.''" "b = p @ s" by blast
        then show ?L using rest by (intro exI [of _ "a @ CHR ''.'' # p"] exI [of _ s]) simp
      qed
    qed
    moreover have "length b \<le> n" using Suc.prems rest by simp
    ultimately show ?thesis using Some ab Suc.IH [of b] by simp
  qed
qed auto

lemma domain_matches_suffix_set_iff [route_simps]:
  "domain_matches_suffix_set host S \<longleftrightarrow> (\<exists>s\<in>set S. label_suffix host s)"
proof (cases "S = []")
  case False
  then have "domain_matches_suffix_set host S \<longleftrightarrow> host \<in> set S \<or>
      (\<exists>p s. s \<in> set S \<and> p \<noteq> [] \<and> last p = CHR ''.'' \<and> host = p @ s)"
    by (simp add: domain_matches_suffix_set_def suffix_loop_iff)
  then show ?thesis unfolding label_suffix_def by (metis (no_types, lifting) append_Nil)
qed (simp add: domain_matches_suffix_set_def)

text \<open>
  A suffix rule matches at label boundaries only, ignoring ASCII case: after its leading
  stars, then dots, and its white space are removed, the rule must be nonempty and equal
  to the domain or to what follows a dot of the domain. So "le.com" never matches "google.com".
\<close>
theorem domain_suffix_label_boundary:
  "domain_matches_suffix domain suffix \<longleftrightarrow>
     (let s = trim (strip_suffix_rule suffix) in
      s \<noteq> [] \<and> (eq_ignore_ascii_case domain s \<or>
        (\<exists>p. to_ascii_lowercase domain = p @ ''.'' @ to_ascii_lowercase s)))"
proof -
  have "label_suffix d s \<longleftrightarrow> d = s \<or> (\<exists>p. d = p @ ''.'' @ s)" for d s
  proof
    assume "label_suffix d s"
    then obtain p where p: "p = [] \<or> last p = CHR ''.''" "d = p @ s" by (auto simp: label_suffix_def)
    then show "d = s \<or> (\<exists>p. d = p @ ''.'' @ s)"
      by (cases p rule: rev_cases) auto
  next
    assume "d = s \<or> (\<exists>p. d = p @ ''.'' @ s)"
    then show "label_suffix d s"
    proof
      assume "\<exists>p. d = p @ ''.'' @ s"
      then obtain p where "d = (p @ ''.'') @ s" by auto
      then show ?thesis unfolding label_suffix_def by (intro exI [of _ "p @ ''.''"]) simp
    qed (auto simp: label_suffix_def)
  qed
  then show ?thesis by (simp add: domain_matches_suffix_iff Let_def eq_ignore_ascii_case_def)
qed




section \<open>Address blocks\<close>

lemma cidr_mask_bit:
  assumes "0 < p"
  shows "bit (cidr_mask p :: 'a::len word) i \<longleftrightarrow> i < LENGTH('a) \<and> LENGTH('a) - p \<le> i"
  using assms by (auto simp: cidr_mask_def wrapping_shl_def bit_simps)

lemma cidr_mask_zero: "(cidr_mask 0 :: 'a::len word) = - 1"
  by (simp add: cidr_mask_def wrapping_shl_def)

lemma same_block_iff:
  fixes a b :: "'a::len word"
  assumes "0 < p"
  shows "a AND cidr_mask p = b AND cidr_mask p \<longleftrightarrow>
    drop_bit (LENGTH('a) - p) a = drop_bit (LENGTH('a) - p) b" (is "?L \<longleftrightarrow> ?R")
proof
  assume ?L
  then have *: "bit (a AND cidr_mask p) i = bit (b AND cidr_mask p) i" for i by simp
  show ?R
  proof (rule bit_word_eqI)
    fix n
    show "bit (drop_bit (LENGTH('a) - p) a) n \<longleftrightarrow> bit (drop_bit (LENGTH('a) - p) b) n"
      using * [of "LENGTH('a) - p + n"] assms by (auto simp: bit_simps cidr_mask_bit dest: bit_imp_le_length)
  qed
next
  assume ?R
  then have *: "bit (drop_bit (LENGTH('a) - p) a) n = bit (drop_bit (LENGTH('a) - p) b) n" for n by simp
  show ?L
  proof (rule bit_word_eqI)
    fix n
    show "bit (a AND cidr_mask p) n \<longleftrightarrow> bit (b AND cidr_mask p) n"
      using * [of "n - (LENGTH('a) - p)"] assms by (auto simp: bit_simps cidr_mask_bit)
  qed
qed

text \<open>
  C23: A block with an explicit prefix length holds exactly the addresses of its family whose
  first bits agree with the network address; a length above the width of the address
  compares the whole address. The length 0 does so as well, where it should match every
  address: the shift by the full width wraps to a shift by nothing.
\<close>
theorem ip_in_cidr_spec:
  assumes "CHR ''/'' \<notin> set net" "parse_ip net = Some n" "p \<le> 255"
  shows "ip_in_cidr ip (net @ ''/'' @ show_nat p) \<longleftrightarrow>
    (case (ip, n) of
       (V4 a, V4 b) \<Rightarrow> if p = 0 then a = b else drop_bit (32 - p) a = drop_bit (32 - p) b
     | (V6 a, V6 b) \<Rightarrow> if p = 0 then a = b else drop_bit (128 - p) a = drop_bit (128 - p) b
     | _ \<Rightarrow> False)"
proof -
  have "split_once CHR ''/'' (net @ ''/'' @ show_nat p) = Some (net, show_nat p)"
    using split_once_append [OF assms(1)] by simp
  moreover have "(a AND cidr_mask p = b AND cidr_mask p) \<longleftrightarrow>
      (if p = 0 then a = b else drop_bit (32 - p) a = drop_bit (32 - p) b)" for a b :: u32
    using same_block_iff [of p a b] by (simp add: cidr_mask_zero)
  moreover have "(a AND cidr_mask p = b AND cidr_mask p) \<longleftrightarrow>
      (if p = 0 then a = b else drop_bit (128 - p) a = drop_bit (128 - p) b)" for a b :: u128
    using same_block_iff [of p a b] by (simp add: cidr_mask_zero)
  ultimately show ?thesis
    using assms(2,3) by (simp add: ip_in_cidr_def codec_simps split: IpAddr.splits)
qed

theorem ip_in_cidr_spec_witness:
  "(ip_in_cidr (V4 0x0A010203) ''10.0.0.0/8'' \<longleftrightarrow> drop_bit 24 (0x0A010203 :: u32) = drop_bit 24 0x0A000000) \<and>
   (ip_in_cidr (V4 0x0A010203) ''0.0.0.0/0'' \<longleftrightarrow> (0x0A010203 :: u32) = 0)"
proof -
  have "parse_ip ''10.0.0.0'' = Some (V4 0x0A000000)" "parse_ip ''0.0.0.0'' = Some (V4 0)"
    "show_nat 8 = ''8''" "show_nat 0 = ''0''"
    by code_simp+
  then show ?thesis
    using ip_in_cidr_spec [of "''10.0.0.0''" "V4 0x0A000000" 8 "V4 0x0A010203"]
      ip_in_cidr_spec [of "''0.0.0.0''" "V4 0" 0 "V4 0x0A010203"] by simp
qed

section \<open>The destination policy covers the private addresses\<close>

lemma be_bytes_map: "be_bytes n v = map (\<lambda>i. ucast (drop_bit (8 * (n - 1 - i)) v)) [0..<n]"
proof (induction n)
  case (Suc n)
  have "[0..<Suc n] = 0 # map Suc [0..<n]" by (simp add: map_Suc_upt upt_conv_Cons del: upt_Suc)
  then show ?case using Suc by (simp add: comp_def del: upt_Suc)
qed simp

lemma v6_octets_fold: "be_fold 0 (map (v6_octet a) [0..<16]) = a"
proof -
  have "be_bytes 16 a = map (v6_octet a) [0..<16]"
    unfolding be_bytes_map by (simp add: v6_octet_def)
  then have "be_fold 0 (map (v6_octet a) [0..<16]) = be_fold 0 (be_bytes 16 a)" by simp
  also have "\<dots> = push_bit (8 * 16) 0 OR take_bit (8 * 16) a" by (rule be_fold_be_bytes)
  also have "\<dots> = a" by simp
  finally show ?thesis .
qed

lemma v6_segment_octets: "v6_segment a 0 = push_bit 8 (ucast (v6_octet a 0)) OR ucast (v6_octet a 1)"
  by (rule bit_word_eqI) (auto simp: v6_segment_def v6_octet_def bit_simps)

lemma v6_segment_mask:
  "v6_segment a 0 AND (push_bit 8 (ucast (m :: u8)) OR ucast (k :: u8)) =
     push_bit 8 (ucast (v6_octet a 0 AND m)) OR ucast (v6_octet a 1 AND k)"
  by (rule bit_word_eqI) (auto simp: v6_segment_octets bit_simps dest: bit_imp_le_length)

lemma unique_local_segment:
  "v6_octet a 0 AND 0xfe = 0xfc \<Longrightarrow> v6_segment a 0 AND 0xfe00 = 0xfc00"
  using v6_segment_mask [of a "0xfe" 0] by simp

lemma link_local_segment:
  "v6_octet a 0 = 0xfe \<Longrightarrow> v6_octet a 1 AND 0xc0 = 0x80 \<Longrightarrow> v6_segment a 0 AND 0xffc0 = 0xfe80"
  using v6_segment_mask [of a "0xff" "0xc0"] by simp

lemma be_fold_zeros: "be_fold 0 (map (\<lambda>_. 0) xs @ [x]) = ucast x"
  by (induction xs) simp_all

lemma octets_all_zero:
  assumes "\<forall>i\<in>set [0..<15]. v6_octet a i = 0"
  shows "a = ucast (v6_octet a 15)"
proof -
  have "map (v6_octet a) [0..<15] = map (\<lambda>_. 0) [0..<15]" using assms by (intro map_cong) auto
  moreover have "[0..<16] = [0..<15] @ [15 :: nat]" by code_simp
  ultimately have "map (v6_octet a) [0..<16] = map (\<lambda>_. 0) [0..<15] @ [v6_octet a 15]"
    by (metis list.simps(8,9) map_append)
  then have "a = be_fold 0 (map (\<lambda>_. 0) [0..<15] @ [v6_octet a 15])" using v6_octets_fold [of a] by metis
  also have "\<dots> = ucast (v6_octet a 15)" by (rule be_fold_zeros)
  finally show ?thesis .
qed

text \<open>
  The destination guard of the RST server refuses everything the router calls private,
  and the same addresses written as IPv4-mapped IPv6 addresses, unless private destinations
  are explicitly allowed.
\<close>
theorem private_dest_forbidden:
  "is_private_ip ip \<Longrightarrow> is_forbidden_dest \<lparr>sa_ip = ip, sa_port = port\<rparr> allow \<longleftrightarrow> \<not> allow"
proof (cases ip)
  case (V4 a)
  then show "is_private_ip ip \<Longrightarrow> ?thesis"
    by (auto simp: is_private_ip_def is_forbidden_dest_def is_public_global_def is_public_v4_def
        v4_is_private_def v4_is_loopback_def v4_is_link_local_def)
next
  case (V6 a)
  assume "is_private_ip ip"
  then consider "\<forall>i\<in>set [0..<16]. v6_octet a i = 0" | "\<forall>i\<in>set [0..<15]. v6_octet a i = 0" "v6_octet a 15 = 1"
    | "v6_octet a 0 AND 0xfe = 0xfc" | "v6_octet a 0 = 0xfe" "v6_octet a 1 AND 0xc0 = 0x80"
    by (auto simp: V6 is_private_ip_def)
  then have "\<not> is_public_v6 a"
  proof cases
    case 1
    then have "a = 0" using octets_all_zero [of a] by simp
    then show ?thesis by (simp add: is_public_v6_def is_unspecified_def)
  next
    case 2
    then have "a = 1" using octets_all_zero [of a] by simp
    then show ?thesis by (simp add: is_public_v6_def v6_is_loopback_def)
  next
    case 3
    then show ?thesis using unique_local_segment by (simp add: is_public_v6_def)
  next
    case 4
    then show ?thesis using link_local_segment by (simp add: is_public_v6_def)
  qed
  then show ?thesis by (simp add: V6 is_forbidden_dest_def is_public_global_def)
qed

theorem private_dest_forbidden_witness:
  "is_forbidden_dest \<lparr>sa_ip = V4 0xA9FEA9FE, sa_port = 80\<rparr> False \<longleftrightarrow> \<not> False"
  by (rule private_dest_forbidden) (simp add: is_private_ip_def v4_octet_def)

section \<open>Ports\<close>

text \<open>
  A numeric port of a rule is cut to 16 bits before it is compared: 65616 matches port 80.
  A string is a port, a range of ports with both ends included, or an address and a port,
  and matches nothing if it does not parse.
\<close>
theorem port_entry_matches_spec:
  "(port_entry_matches (JNum (PosInt n)) port \<longleftrightarrow> unat port = unat n mod 65536) \<and>
   (port_entry_matches (JStr (show_nat a)) port \<longleftrightarrow> a = unat port) \<and>
   (port_entry_matches (JStr (show_nat a @ ''-'' @ show_nat b)) port \<longleftrightarrow>
      a \<le> unat port \<and> unat port \<le> b \<and> b \<le> 65535) \<and>
   (port_entry_matches (JStr (host @ '':'' @ show_nat a)) port \<longleftrightarrow> a = unat port)"
proof (intro conjI)
  have p: "unat port < 65536" using unsigned_less [of port, where 'a = nat] by simp
  have nd: "CHR '':'' \<notin> set (show_nat k)" "CHR ''-'' \<notin> set (show_nat k)" for k
    using show_nat_digits [of "CHR '':''" k] show_nat_digits [of "CHR ''-''" k] by (auto simp: is_digit_def)
  show "port_entry_matches (JNum (PosInt n)) port \<longleftrightarrow> unat port = unat n mod 65536"
    by (auto simp: port_entry_matches_def word_unat_eq_iff unsigned_ucast_eq take_bit_eq_mod)
  show "port_entry_matches (JStr (show_nat a)) port \<longleftrightarrow> a = unat port"
    using p by (auto simp: port_entry_matches_def nd codec_simps)
  have "split_char CHR ''-'' (show_nat a @ CHR ''-'' # show_nat b) = [show_nat a, show_nat b]"
    by (simp add: split_char_append split_char_no_sep nd)
  then show "port_entry_matches (JStr (show_nat a @ ''-'' @ show_nat b)) port \<longleftrightarrow>
      a \<le> unat port \<and> unat port \<le> b \<and> b \<le> 65535"
    using p by (auto simp: port_entry_matches_def nd codec_simps)
  have "rsplit_once CHR '':'' (host @ CHR '':'' # show_nat a) = Some (host, show_nat a)"
    by (rule rsplit_once_append) (rule nd)
  then show "port_entry_matches (JStr (host @ '':'' @ show_nat a)) port \<longleftrightarrow> a = unat port"
    using p by (auto simp: port_entry_matches_def codec_simps)
qed

end
