(* ===== verification/Rust_Ipv6.thy ===== *)
theory Rust_Ipv6
  imports Rust_Net
begin

text \<open>
  The textual form of addresses (\<^verbatim>\<open>Display\<close> of \<^verbatim>\<open>Ipv6Addr\<close> and \<^verbatim>\<open>IpAddr\<close>) and that
  the parser of the standard library reads it back.
\<close>

section \<open>Definitions\<close>

definition hex_digit :: "nat \<Rightarrow> char" where
  "hex_digit d = char_of (if d < 10 then d + 48 else d + 87)"

function show_hex :: "nat \<Rightarrow> string" where
  "show_hex n = (if n < 16 then [hex_digit n] else show_hex (n div 16) @ [hex_digit (n mod 16)])"
  by pat_completeness auto
termination
  by (relation "measure id") auto

declare show_hex.simps [simp del]

fun show_groups :: "u16 list \<Rightarrow> string" where
  "show_groups [] = []"
| "show_groups (g # gs) = show_hex (unat g) @ (if gs = [] then [] else '':'' @ show_groups gs)"

definition segments :: "u128 \<Rightarrow> u16 list" where
  "segments a = map (v6_segment a) [0, 1, 2, 3, 4, 5, 6, 7]"

text \<open>The longest run of zero groups: the current and the longest run so far, as start and length.\<close>

fun zero_run :: "nat \<Rightarrow> nat \<times> nat \<Rightarrow> nat \<times> nat \<Rightarrow> u16 list \<Rightarrow> nat \<times> nat" where
  "zero_run i cur best [] = best"
| "zero_run i cur best (g # gs) =
     (if g = 0 then
        (let cur = (if snd cur = 0 then (i, 1) else (fst cur, snd cur + 1)) in
         zero_run (Suc i) cur (if snd cur > snd best then cur else best) gs)
      else zero_run (Suc i) (0, 0) best gs)"

definition show_ipv6 :: "u128 \<Rightarrow> string" where
  "show_ipv6 a =
     (case to_ipv4_mapped a of
        Some v4 \<Rightarrow> ''::ffff:'' @ show_ipv4 v4
      | None \<Rightarrow>
          (let gs = segments a; (start, len) = zero_run 0 (0, 0) (0, 0) gs in
           if len > 1 then show_groups (take start gs) @ ''::'' @ show_groups (drop (start + len) gs)
           else show_groups gs))"

text \<open>Socket addresses: \<^verbatim>\<open>1.2.3.4:80\<close> and \<^verbatim>\<open>[::1%2]:80\<close>. The scope is read and dropped.\<close>

definition read_port :: "string \<Rightarrow> (u16 \<times> string) option" where
  "read_port s =
     (case read_given_char CHR '':'' s of
        None \<Rightarrow> None
      | Some r \<Rightarrow> (case read_number 10 (length r) True 65535 r of None \<Rightarrow> None | Some (p, r) \<Rightarrow> Some (of_nat p, r)))"

definition read_scope_id :: "string \<Rightarrow> string" where
  "read_scope_id s =
     (case read_given_char CHR ''%'' s of
        None \<Rightarrow> s
      | Some r \<Rightarrow> (case read_number 10 (length r) True 4294967295 r of None \<Rightarrow> s | Some (_, r) \<Rightarrow> r))"

definition read_socket_v4 :: "string \<Rightarrow> (SocketAddr \<times> string) option" where
  "read_socket_v4 s =
     (case read_ipv4 s of None \<Rightarrow> None | Some (a, s) \<Rightarrow>
      case read_port s of None \<Rightarrow> None | Some (p, s) \<Rightarrow> Some (\<lparr>sa_ip = V4 a, sa_port = p\<rparr>, s))"

definition read_socket_v6 :: "string \<Rightarrow> (SocketAddr \<times> string) option" where
  "read_socket_v6 s =
     (case read_given_char CHR ''['' s of None \<Rightarrow> None | Some s \<Rightarrow>
      case read_ipv6 s of None \<Rightarrow> None | Some (a, s) \<Rightarrow>
      case read_given_char CHR '']'' (read_scope_id s) of None \<Rightarrow> None | Some s \<Rightarrow>
      case read_port s of None \<Rightarrow> None | Some (p, s) \<Rightarrow> Some (\<lparr>sa_ip = V6 a, sa_port = p\<rparr>, s))"

definition parse_socket_addr :: "string \<Rightarrow> SocketAddr option" where
  "parse_socket_addr s =
     whole_input (case read_socket_v4 s of Some x \<Rightarrow> Some x | None \<Rightarrow> read_socket_v6 s)"

definition show_ip :: "IpAddr \<Rightarrow> string" where
  "show_ip ip = (case ip of V4 a \<Rightarrow> show_ipv4 a | V6 a \<Rightarrow> show_ipv6 a)"


section \<open>Hexadecimal groups\<close>

definition is_hex :: "char \<Rightarrow> bool" where
  "is_hex c \<longleftrightarrow> digit_in 16 c \<noteq> None"

lemma digit_in_hex_digit: "d < 16 \<Longrightarrow> digit_in 16 (hex_digit d) = Some d"
  by (simp add: digit_in_def hex_digit_def Let_def)

lemma read_digits_append_hex:
  "\<forall>c\<in>set s. is_hex c \<Longrightarrow>
   read_digits 16 acc n (s @ t) = (let (v, k, r) = read_digits 16 acc n s in read_digits 16 v k t)"
  by (induction s arbitrary: acc n) (auto simp: is_hex_def split: option.splits)

lemma show_hex_hex: "c \<in> set (show_hex n) \<Longrightarrow> is_hex c"
proof (induction n rule: show_hex.induct)
  case (1 n)
  then show ?case
    by (subst (asm) (2) show_hex.simps) (auto simp: is_hex_def digit_in_hex_digit split: if_splits)
qed

lemma read_digits_show_hex:
  assumes "t = [] \<or> \<not> is_hex (hd t)"
  shows "read_digits 16 0 k (show_hex n @ t) = (n, k + length (show_hex n), t)"
proof -
  have t: "read_digits 16 v m t = (v, m, t)" for v m
    using assms by (cases t) (auto simp: is_hex_def)
  have s: "read_digits 16 0 k (show_hex n) = (n, k + length (show_hex n), [])" for k
  proof (induction n rule: show_hex.induct)
    case (1 n)
    show ?case
    proof (cases "n < 16")
      case True
      then show ?thesis by (simp add: show_hex.simps [of n] digit_in_hex_digit)
    next
      case False
      have "\<forall>c\<in>set (show_hex (n div 16)). is_hex c" using show_hex_hex by blast
      from read_digits_append_hex [OF this, of 0 k "[hex_digit (n mod 16)]"] 1 [OF False] False show ?thesis
        by (simp add: show_hex.simps [of n] digit_in_hex_digit)
    qed
  qed
  have "\<forall>c\<in>set (show_hex n). is_hex c" using show_hex_hex by blast
  from read_digits_append_hex [OF this] show ?thesis by (simp add: s t)
qed


lemma show_hex_length: "n < 65536 \<Longrightarrow> 0 < length (show_hex n) \<and> length (show_hex n) \<le> 4"
proof -
  assume n: "n < 65536"
  have s: "show_hex m = (if m < 16 then [hex_digit m] else show_hex (m div 16) @ [hex_digit (m mod 16)])" for m
    by (rule show_hex.simps)
  have "n div 16 div 16 div 16 < 16" using n by simp
  then show ?thesis
    using s [of n] s [of "n div 16"] s [of "n div 16 div 16"] s [of "n div 16 div 16 div 16"] by simp
qed

lemma unat_u16_less: "unat (x :: u16) < 65536"
  using unsigned_less [of x, where 'a = nat] by simp

lemma unat_u16_le: "unat (x :: u16) \<le> 65535"
  using unat_u16_less [of x] by linarith

lemma read_number_show_hex:
  assumes "t = [] \<or> \<not> is_hex (hd t)"
  shows "read_number 16 4 True 65535 (show_hex (unat (g :: u16)) @ t) = Some (unat g, t)"
  using read_digits_show_hex [OF assms, of 0 "unat g"] show_hex_length [OF unat_u16_less [of g]] unat_u16_le [of g]
  by (auto simp: read_number_def)

section \<open>Groups\<close>

lemma read_digits_suffix: "read_digits r acc n s = (v, k, t) \<Longrightarrow> set t \<subseteq> set s"
  by (induction r acc n s rule: read_digits.induct) (auto split: option.splits)

lemma read_number_suffix: "read_number r d z m s = Some (v, t) \<Longrightarrow> set t \<subseteq> set s"
  by (auto simp: read_number_def Let_def dest: read_digits_suffix split: prod.splits if_splits)

lemma read_ipv4_no_dot:
  assumes "CHR ''.'' \<notin> set s"
  shows "read_ipv4 s = None"
proof (cases "read_octet 0 s")
  case (Some p)
  then have "set (snd p) \<subseteq> set s"
    by (cases p) (auto simp: read_octet_def read_separator_def dest: read_number_suffix)
  then have "CHR ''.'' \<notin> set (snd p)" using assms by blast
  then have "read_octet 1 (snd p) = None"
    by (cases "snd p") (auto simp: read_octet_def read_separator_def read_given_char_def)
  then show ?thesis using Some by (cases p) (simp add: read_ipv4_def)
qed (simp add: read_ipv4_def)

definition groups_end :: "string \<Rightarrow> bool" where
  "groups_end t \<longleftrightarrow> CHR ''.'' \<notin> set t \<and> (t = [] \<or> (\<exists>u. t = ''::'' @ u))"

lemma colon_not_hex [simp]: "\<not> is_hex CHR '':''" "digit_in 16 CHR '':'' = None"
  by (simp_all add: is_hex_def digit_in_def Let_def)

lemma hex_not_dot: "CHR ''.'' \<notin> set (show_hex n)"
  using show_hex_hex [of "CHR ''.''" n] by (auto simp: is_hex_def digit_in_def Let_def)

lemma show_groups_no_dot: "CHR ''.'' \<notin> set (show_groups gs)"
  by (induction gs) (auto simp: hex_not_dot)

lemma read_number_end: "s = [] \<or> hd s = CHR '':'' \<Longrightarrow> read_number 16 4 True 65535 s = None"
  by (cases s) (auto simp: read_number_def)

lemma read_sep_no_dot: "CHR ''.'' \<notin> set s \<Longrightarrow> read_separator CHR '':'' i read_ipv4 s = None"
  by (cases s) (auto simp: read_separator_def read_given_char_def read_ipv4_no_dot)

lemma read_groups_end:
  assumes "groups_end t"
  shows "read_groups n i t = ([], False, t)"
proof -
  have "read_separator CHR '':'' i read_ipv4 t = None"
    using assms by (intro read_sep_no_dot) (simp add: groups_end_def)
  moreover have "read_separator CHR '':'' i (read_number 16 4 True 65535) t = None"
    using assms by (auto simp: groups_end_def read_separator_def read_given_char_def read_number_end)
  ultimately show ?thesis by (cases n) simp_all
qed

lemma read_groups_show:
  assumes "length gs \<le> n" "groups_end t"
  shows "read_groups n i ((if 0 < i \<and> gs \<noteq> [] then '':'' else []) @ show_groups gs @ t) = (gs, False, t)"
  using assms
proof (induction gs arbitrary: n i)
  case Nil
  then show ?case by (simp add: read_groups_end)
next
  case (Cons g gs)
  then obtain m where m: "n = Suc m" by (cases n) auto
  let ?rest = "(if gs \<noteq> [] then '':'' else []) @ show_groups gs @ t"
  have nd: "CHR ''.'' \<notin> set ?rest" using Cons.prems(2) show_groups_no_dot by (auto simp: groups_end_def)
  have h: "?rest = [] \<or> \<not> is_hex (hd ?rest)" using Cons.prems(2) by (cases gs) (auto simp: groups_end_def)
  have "CHR ''.'' \<notin> set ((if 0 < i then '':'' else []) @ show_hex (unat g) @ ?rest)"
    using nd hex_not_dot by auto
  then have v4: "read_separator CHR '':'' i read_ipv4 ((if 0 < i then '':'' else []) @ show_hex (unat g) @ ?rest) = None"
    by (rule read_sep_no_dot)
  have num: "read_separator CHR '':'' i (read_number 16 4 True 65535)
      ((if 0 < i then '':'' else []) @ show_hex (unat g) @ ?rest) = Some (unat g, ?rest)"
    using read_number_show_hex [OF h] by (simp add: read_separator_def read_given_char_def)
  have "read_groups m (Suc i) ?rest = (gs, False, t)"
    using Cons.IH [of m "Suc i"] Cons.prems m by simp
  moreover have "gs \<noteq> [] \<longrightarrow> 0 < m" using Cons.prems m by (cases gs) auto
  ultimately have "read_groups n i ((if 0 < i then '':'' else []) @ show_hex (unat g) @ ?rest) = (g # gs, False, t)"
    using v4 num by (simp add: m)
  then show ?case by (cases gs; cases i) simp_all
qed


section \<open>The round trip\<close>

definition zeros_at :: "u16 list \<Rightarrow> nat \<times> nat \<Rightarrow> bool" where
  "zeros_at gs run \<longleftrightarrow> fst run + snd run \<le> length gs \<and> (\<forall>k. fst run \<le> k \<and> k < fst run + snd run \<longrightarrow> gs ! k = 0)"

lemma zeros_at_append: "zeros_at xs run \<Longrightarrow> zeros_at (xs @ ys) run"
  by (auto simp: zeros_at_def nth_append)

lemma zero_run_zeros:
  "\<lbrakk>zeros_at pre cur; snd cur = 0 \<or> fst cur + snd cur = length pre; zeros_at (pre @ gs) best\<rbrakk> \<Longrightarrow>
   zeros_at (pre @ gs) (zero_run (length pre) cur best gs)"
proof (induction gs arbitrary: pre cur best)
  case (Cons g gs)
  show ?case
  proof (cases "g = 0")
    case True
    let ?cur = "if snd cur = 0 then (length pre, 1) else (fst cur, snd cur + 1)"
    have c: "zeros_at (pre @ [g]) ?cur" "snd ?cur = 0 \<or> fst ?cur + snd ?cur = length (pre @ [g])"
      using Cons.prems True by (auto simp: zeros_at_def nth_append less_Suc_eq)
    have "zeros_at ((pre @ [g]) @ gs) ?cur" by (rule zeros_at_append [OF c(1)])
    then have "zeros_at ((pre @ [g]) @ gs) (if snd ?cur > snd best then ?cur else best)"
      using Cons.prems(3) by simp
    from Cons.IH [OF c this] True show ?thesis by (simp add: Let_def)
  next
    case False
    have "zeros_at (pre @ [g]) (0, 0)" "snd (0 :: nat, 0 :: nat) = 0 \<or> fst (0 :: nat, 0 :: nat) + snd (0 :: nat, 0 :: nat) = length (pre @ [g])"
      by (simp_all add: zeros_at_def)
    from Cons.IH [OF this, of best] Cons.prems(3) False show ?thesis by simp
  qed
qed simp

lemma zeros_at_split:
  assumes "zeros_at gs (start, len)"
  shows "take start gs @ replicate len 0 @ drop (start + len) gs = gs"
proof -
  have "take len (drop start gs) = replicate len 0"
    using assms by (intro nth_equalityI) (auto simp: zeros_at_def)
  then have "drop start gs = replicate len 0 @ drop (start + len) gs"
    by (metis add.commute append_take_drop_id drop_drop)
  then show ?thesis by (metis append_take_drop_id)
qed

fun segs_from :: "nat \<Rightarrow> u128 \<Rightarrow> u16 list" where
  "segs_from 0 a = []"
| "segs_from (Suc k) a = ucast (drop_bit (16 * k) a) # segs_from k a"

lemma v6_of_segs_from: "length (segs_from k a) = k \<and> v6_of_segments (segs_from k a) = take_bit (16 * k) a"
proof (induction k)
  case (Suc k)
  have "push_bit (16 * k) (ucast (ucast (drop_bit (16 * k) a) :: u16)) OR take_bit (16 * k) a = take_bit (16 * Suc k) a"
    by (rule bit_word_eqI) (auto simp: bit_simps)
  then show ?case using Suc by simp
qed simp

lemma v6_of_segments_segments: "v6_of_segments (segments a) = a"
proof -
  have "segments a = segs_from 8 a"
    by (simp add: segments_def v6_segment_def numeral_eq_Suc)
  then show ?thesis using v6_of_segs_from [of 8 a] by (simp add: take_bit_all)
qed

lemma length_segments [simp]: "length (segments a) = 8"
  by (simp add: segments_def)

lemma read_show_ipv6_groups:
  assumes "to_ipv4_mapped a = None"
  shows "read_ipv6 (show_ipv6 a) = Some (a, []) \<and> CHR ''.'' \<notin> set (show_ipv6 a)"
proof -
  obtain start len where run: "zero_run 0 (0, 0) (0, 0) (segments a) = (start, len)" by (cases "zero_run 0 (0, 0) (0, 0) (segments a)")
  have "zeros_at ([] @ segments a) (zero_run (length ([] :: u16 list)) (0, 0) (0, 0) (segments a))"
    by (rule zero_run_zeros) (simp_all add: zeros_at_def)
  then have z: "zeros_at (segments a) (start, len)" by (simp add: run)
  show ?thesis
  proof (cases "len > 1")
    case True
    let ?hd = "take start (segments a)" and ?tl = "drop (start + len) (segments a)"
    have t: "show_ipv6 a = show_groups ?hd @ ''::'' @ show_groups ?tl"
      using assms run True by (simp add: show_ipv6_def Let_def)
    have lens: "length ?hd = start" "length ?tl = 8 - (start + len)" "start + len \<le> 8"
      using z by (simp_all add: zeros_at_def)
    have "read_groups 8 0 (show_ipv6 a) = (?hd, False, ''::'' @ show_groups ?tl)"
      using read_groups_show [of ?hd 8 "''::'' @ show_groups ?tl" 0] lens True show_groups_no_dot
      by (simp add: t groups_end_def)
    moreover have "read_groups (7 - start) 0 (show_groups ?tl) = (?tl, False, [])"
      using read_groups_show [of ?tl "7 - start" "[]" 0] lens True by (simp add: groups_end_def)
    moreover have "?hd @ replicate (8 - start - length ?tl) 0 @ ?tl = segments a"
      using zeros_at_split [OF z] lens by simp
    ultimately have "read_ipv6 (show_ipv6 a) = Some (a, [])"
      using lens True by (simp add: read_ipv6_def read_given_char_def v6_of_segments_segments)
    then show ?thesis using show_groups_no_dot by (simp add: t)
  next
    case False
    then have t: "show_ipv6 a = show_groups (segments a)" using assms run by (simp add: show_ipv6_def Let_def)
    have "read_groups 8 0 (show_ipv6 a) = (segments a, False, [])"
      using read_groups_show [of "segments a" 8 "[]" 0] by (simp add: t groups_end_def)
    then show ?thesis using show_groups_no_dot by (simp add: read_ipv6_def t v6_of_segments_segments)
  qed
qed

lemma v6_of_mapped:
  assumes "to_ipv4_mapped a = Some v"
  shows "v6_of_segments (replicate 5 0 @ [0xffff, ucast (drop_bit 16 v), ucast v]) = a"
proof -
  have a: "drop_bit 32 a = 0xFFFF" "v = ucast a" using assms by (auto simp: to_ipv4_mapped_def split: if_splits)
  have lo: "push_bit 16 (ucast (ucast (drop_bit 16 v) :: u16)) OR ucast (ucast v :: u16) = take_bit 32 a"
    unfolding a(2) by (rule bit_word_eqI) (auto simp: bit_simps)
  have r: "replicate 5 (0 :: u16) = [0, 0, 0, 0, 0]" by code_simp
  have "v6_of_segments (replicate 5 0 @ [0xffff, ucast (drop_bit 16 v), ucast v]) =
      push_bit 32 0xFFFF OR take_bit 32 a"
    by (simp add: r lo)
  also have "\<dots> = push_bit 32 (drop_bit 32 a) OR take_bit 32 a" by (simp add: a)
  also have "\<dots> = a" by (rule bit_word_eqI) (auto simp: bit_simps)
  finally show ?thesis .
qed

lemma read_show_ipv6_mapped:
  assumes "to_ipv4_mapped a = Some v"
  shows "read_ipv4 (show_ipv6 a) = None" "read_ipv6 (show_ipv6 a) = Some (a, [])"
proof -
  have t: "show_ipv6 a = ''::'' @ ''ffff:'' @ show_ipv4 v" using assms by (simp add: show_ipv6_def)
  have d: "digit_in 16 CHR ''f'' = Some 15" "digit_in 10 CHR ''f'' = None" "digit_in 10 CHR '':'' = None"
    by code_simp+
  have v4: "read_ipv4 (CHR ''f'' # u) = None" "read_ipv4 (CHR '':'' # u) = None" for u
    by (simp_all add: read_ipv4_def read_octet_def read_separator_def read_number_def d)
  then show "read_ipv4 (show_ipv6 a) = None" by (simp add: t)
  have n: "(8 :: nat) = Suc 7" "(7 :: nat) = Suc 6" "(6 :: nat) = Suc 5" by simp_all
  have head: "read_groups 8 0 (show_ipv6 a) = ([], False, show_ipv6 a)"
    unfolding n(1) t read_groups.simps(2) by (simp add: read_separator_def v4 read_number_end)
  have num: "read_number 16 4 True 65535 (''ffff:'' @ show_ipv4 v) = Some (65535, CHR '':'' # show_ipv4 v)"
    by (simp add: read_number_def d)
  have "read_groups 6 1 (CHR '':'' # show_ipv4 v) = ([ucast (drop_bit 16 v), ucast v], True, [])"
    unfolding n(3) read_groups.simps(2) using read_show_ipv4 [of "[]" v] by (simp add: read_separator_def read_given_char_def)
  then have tail: "read_groups 7 0 (''ffff:'' @ show_ipv4 v) = ([0xffff, ucast (drop_bit 16 v), ucast v], True, [])"
    unfolding n(2) read_groups.simps(2) using num by (simp add: read_separator_def v4)
  show "read_ipv6 (show_ipv6 a) = Some (a, [])"
    using head tail v6_of_mapped [OF assms] by (simp add: read_ipv6_def t read_given_char_def)
qed

lemma parse_show_ip [codec_simps]: "parse_ip (show_ip ip) = Some ip"
proof (cases ip)
  case (V6 a)
  then show ?thesis
    using read_show_ipv6_groups [of a] read_show_ipv6_mapped [of a] read_ipv4_no_dot [of "show_ipv6 a"]
    by (cases "to_ipv4_mapped a") (simp_all add: show_ip_def parse_ip_def whole_input_def)
qed (simp add: show_ip_def codec_simps)

lemma show_ip_no_slash: "CHR ''/'' \<notin> set (show_ip ip)"
proof -
  have h: "CHR ''/'' \<notin> set (show_hex n)" for n
    using show_hex_hex [of "CHR ''/''" n] by (auto simp: is_hex_def digit_in_def Let_def)
  then have g: "CHR ''/'' \<notin> set (show_groups gs)" for gs by (induction gs) auto
  have "CHR ''/'' \<notin> set (show_ipv4 a)" for a
    using show_nat_digits [of "CHR ''/''"] by (auto simp: show_ipv4_def is_digit_def)
  then show ?thesis by (auto simp: show_ip_def show_ipv6_def g Let_def split: IpAddr.splits option.splits prod.splits)
qed

end
