(* ===== verification/Srs.thy ===== *)
theory Srs
  imports Route_Match Rust_Ipv6 Wire_Codec
begin

text \<open>
  The reader of binary rule sets (\<^verbatim>\<open>rsb-route/src/srs.rs\<close>) with the succinct trie of
  domains. The zlib decoder is the parameter \<open>inflate\<close>. A cursor is the list of the bytes it
  has left; \<^verbatim>\<open>read_exact\<close> fails when there are too few. Reserving more memory than the
  address space admits panics, as \<^verbatim>\<open>Vec\<close> does; \<open>stack\<close> is the number of nested logical
  rules the call stack has room for.
\<close>

section \<open>Definitions\<close>

subsection \<open>UTF-8 with replacement\<close>

text \<open>
  The character at the start of a nonempty byte list: its length if it is well-formed, else
  the length of the part that is replaced by U+FFFD.
\<close>

definition utf8_second :: "u8 \<Rightarrow> u8 \<Rightarrow> bool" where
  "utf8_second b c =
     (if b = 0xE0 then 0xA0 \<le> c \<and> c \<le> 0xBF
      else if b = 0xED then 0x80 \<le> c \<and> c \<le> 0x9F
      else if b = 0xF0 then 0x90 \<le> c \<and> c \<le> 0xBF
      else if b = 0xF4 then 0x80 \<le> c \<and> c \<le> 0x8F
      else utf8_cont c)"

fun utf8_scan :: "bytes \<Rightarrow> nat \<times> bool" where
  "utf8_scan [] = (1, False)"
| "utf8_scan (b # bs) =
     (if b < 0x80 then (1, True)
      else if b < 0xC2 \<or> b > 0xF4 then (1, False)
      else case bs of
        [] \<Rightarrow> (1, False)
      | c # bs \<Rightarrow>
          if \<not> utf8_second b c then (1, False)
          else if b < 0xE0 then (2, True)
          else case bs of
            [] \<Rightarrow> (2, False)
          | d # bs \<Rightarrow>
              if \<not> utf8_cont d then (2, False)
              else if b < 0xF0 then (3, True)
              else case bs of
                [] \<Rightarrow> (3, False)
              | e # _ \<Rightarrow> if utf8_cont e then (4, True) else (3, False))"

lemma utf8_scan_pos: "0 < fst (utf8_scan bs)"
  by (cases bs) (auto split: list.splits)

function utf8_chunks :: "bytes \<Rightarrow> (bytes \<times> bool) list" where
  "utf8_chunks bs =
     (if bs = [] then []
      else let (n, ok) = utf8_scan bs in (take n bs, ok) # utf8_chunks (drop n bs))"
  by pat_completeness auto
termination
proof (relation "measure length")
  fix bs :: bytes and x :: "nat \<times> bool" and n ok
  assume "bs \<noteq> []" "x = utf8_scan bs" "(n, ok) = x"
  then show "(drop n bs, bs) \<in> measure length"
    using utf8_scan_pos [of bs] by (cases "utf8_scan bs") (auto simp: length_greater_0_conv)
qed simp

declare utf8_chunks.simps [simp del]

definition from_utf8_lossy :: "bytes \<Rightarrow> string" where
  "from_utf8_lossy bs =
     str_of_bytes (concat (map (\<lambda>(c, ok). if ok then c else [0xEF, 0xBF, 0xBD]) (utf8_chunks bs)))"

definition reverse_domain :: "string \<Rightarrow> string" where
  "reverse_domain s = str_of_bytes (concat (rev (map fst (utf8_chunks (as_bytes s)))))"

subsection \<open>Readers\<close>

definition SRS_MAGIC :: bytes where "SRS_MAGIC = [0x53, 0x52, 0x53]"
definition RULE_ITEM_DOMAIN :: u8 where "RULE_ITEM_DOMAIN = 2"
definition RULE_ITEM_DOMAIN_KEYWORD :: u8 where "RULE_ITEM_DOMAIN_KEYWORD = 3"
definition RULE_ITEM_IPCIDR :: u8 where "RULE_ITEM_IPCIDR = 6"
definition RULE_ITEM_FINAL :: u8 where "RULE_ITEM_FINAL = 0xFF"

text \<open>\<^verbatim>\<open>Vec::with_capacity(n)\<close> and \<^verbatim>\<open>vec![x; n]\<close> for elements of \<open>sz\<close> bytes.\<close>

definition with_capacity :: "nat \<Rightarrow> nat \<Rightarrow> unit res" where
  "with_capacity n sz = (if n * sz > 2 ^ 63 - 1 then Inl (Panic ''capacity overflow'') else Inr ())"

definition read_u8 :: "bytes \<Rightarrow> (u8 \<times> bytes) res" where
  "read_u8 r = bindR (read_exact 1 r) (\<lambda>(b, r). Inr (hd b, r))"

definition read_u64_be :: "bytes \<Rightarrow> (u64 \<times> bytes) res" where
  "read_u64_be r = bindR (read_exact 8 r) (\<lambda>(b, r). Inr (be_fold 0 b, r))"

fun uvarint_loop :: "u64 \<Rightarrow> u32 \<Rightarrow> bytes \<Rightarrow> (u64 \<times> bytes) res" where
  "uvarint_loop x s [] = Inl (Err ''failed to fill whole buffer'')"
| "uvarint_loop x s (b # r) =
     (if b < 0x80 then
        (if s > 63 \<or> (s = 63 \<and> b > 1) then Inl (Err ''uvarint overflow'')
         else Inr (x OR wrapping_shl (ucast b) (unat s), r))
      else uvarint_loop (x OR wrapping_shl (ucast (b AND 0x7f)) (unat s)) (s + 7) r)"

definition read_uvarint :: "bytes \<Rightarrow> (u64 \<times> bytes) res" where
  "read_uvarint r = uvarint_loop 0 0 r"

text \<open>A count, then as many items; \<open>sz\<close> is the size of an item in memory.\<close>

definition read_counted :: "nat \<Rightarrow> (bytes \<Rightarrow> ('a \<times> bytes) res) \<Rightarrow> bytes \<Rightarrow> ('a list \<times> bytes) res" where
  "read_counted sz rd r =
     bindR (read_uvarint r) (\<lambda>(c, r).
     bindR (with_capacity (unat c) sz) (\<lambda>_. decode_many rd (unat c) r))"

definition read_bytes :: "bytes \<Rightarrow> (bytes \<times> bytes) res" where
  "read_bytes r =
     bindR (read_uvarint r) (\<lambda>(len, r).
     bindR (with_capacity (unat len) 1) (\<lambda>_. read_exact (unat len) r))"

definition read_string :: "bytes \<Rightarrow> (string \<times> bytes) res" where
  "read_string r =
     bindR (read_bytes r) (\<lambda>(buf, r).
     bindR (with_context ''invalid utf-8'' (from_utf8 buf)) (\<lambda>s. Inr (s, r)))"

definition read_string_list :: "bytes \<Rightarrow> (string list \<times> bytes) res" where
  "read_string_list = read_counted 24 read_string"

definition read_u16_be :: "bytes \<Rightarrow> (u16 \<times> bytes) res" where
  "read_u16_be r = bindR (read_exact 2 r) (\<lambda>(b, r). Inr (be_fold 0 b, r))"

definition read_u16_list :: "bytes \<Rightarrow> (u16 list \<times> bytes) res" where
  "read_u16_list = read_counted 2 read_u16_be"

definition read_u64_list :: "bytes \<Rightarrow> (u64 list \<times> bytes) res" where
  "read_u64_list = read_counted 8 read_u64_be"

definition read_ip :: "bytes \<Rightarrow> (IpAddr \<times> bytes) res" where
  "read_ip r =
     bindR (read_bytes r) (\<lambda>(buf, r).
     if length buf = 4 then Inr (V4 (be_fold 0 buf), r)
     else if length buf = 16 then Inr (V6 (be_fold 0 buf), r)
     else Inl (Err ''invalid ip length''))"

definition read_ip_prefix :: "bytes \<Rightarrow> (unit \<times> bytes) res" where
  "read_ip_prefix r = bindR (read_ip r) (\<lambda>(_, r). bindR (read_u8 r) (\<lambda>(_, r). Inr ((), r)))"

definition read_prefixes :: "bytes \<Rightarrow> (unit \<times> bytes) res" where
  "read_prefixes r =
     bindR (read_u8 r) (\<lambda>(_, r).
     bindR (read_uvarint r) (\<lambda>(prefix_count, r).
     bindR (decode_many read_ip_prefix (unat prefix_count) r) (\<lambda>(_, r). Inr ((), r))))"

definition skip_prefix_map :: "bytes \<Rightarrow> (unit \<times> bytes) res" where
  "skip_prefix_map r =
     bindR (read_uvarint r) (\<lambda>(sz, r).
     bindR (decode_many read_prefixes (unat sz) r) (\<lambda>(_, r). Inr ((), r)))"

definition read_ip_pair :: "bytes \<Rightarrow> ((IpAddr \<times> IpAddr) \<times> bytes) res" where
  "read_ip_pair r = bindR (read_ip r) (\<lambda>(f, r). bindR (read_ip r) (\<lambda>(t, r). Inr ((f, t), r)))"

definition read_ip_set :: "bytes \<Rightarrow> ((IpAddr \<times> IpAddr) list \<times> bytes) res" where
  "read_ip_set r =
     bindR (read_u8 r) (\<lambda>(version, r).
     if version \<noteq> 1 then Inl (Err ''unsupported ip set version'')
     else
       bindR (read_u64_be r) (\<lambda>(c, r).
       bindR (with_capacity (unat c) 34) (\<lambda>_. decode_many read_ip_pair (unat c) r)))"

subsection \<open>The succinct trie\<close>

definition words_get :: "u64 list \<Rightarrow> nat \<Rightarrow> u64" where
  "words_get ws i = (if i < length ws then ws ! i else 0)"

definition get_bit :: "u64 list \<Rightarrow> nat \<Rightarrow> u64" where
  "get_bit ws i =
     (if drop_bit 6 i < length ws then ws ! drop_bit 6 i AND push_bit (i mod 64) 1 else 0)"

definition bit_index_in_range :: "u64 list \<Rightarrow> nat \<Rightarrow> bool" where
  "bit_index_in_range ws i \<longleftrightarrow> ws \<noteq> [] \<and> drop_bit 6 i < length ws"

definition count_ones :: "u64 \<Rightarrow> nat" where
  "count_ones w = length (filter (bit w) [0..<64])"

definition count_zeros :: "u64 list \<Rightarrow> nat \<Rightarrow> nat" where
  "count_zeros bm i =
     (let ones = sum_list (map (\<lambda>word_i.
        let end = (if word_i = drop_bit 6 i then i mod 64 else 64);
            m = (if end = 64 then - 1 else if end = 0 then 0 else push_bit end 1 - 1) in
        count_ones (words_get bm word_i AND m)) [0..<Suc (drop_bit 6 i)]) in
      i - ones)"

fun select_loop :: "u64 list \<Rightarrow> nat \<Rightarrow> nat \<Rightarrow> nat list \<Rightarrow> nat option" where
  "select_loop bm i seen [] = None"
| "select_loop bm i seen (b # bs) =
     (if get_bit bm b \<noteq> 0 then (if seen = i then Some b else select_loop bm i (Suc seen) bs)
      else select_loop bm i seen bs)"

definition select_ith_one :: "u64 list \<Rightarrow> nat \<Rightarrow> nat" where
  "select_ith_one bm i =
     (let total_bits = length bm * 64 in
      case select_loop bm i 0 [0..<total_bits] of Some b \<Rightarrow> b | None \<Rightarrow> total_bits)"

text \<open>
  The traversal: \<open>d\<close> is what is left of the depth limit, \<open>k\<close> of the step limit of a node.
\<close>

function traverse ::
    "u64 list \<Rightarrow> u64 list \<Rightarrow> u8 list \<Rightarrow> nat \<Rightarrow> nat \<Rightarrow> nat \<Rightarrow> u8 list \<Rightarrow> string list \<Rightarrow> string list"
  and walk ::
    "u64 list \<Rightarrow> u64 list \<Rightarrow> u8 list \<Rightarrow> nat \<Rightarrow> nat \<Rightarrow> nat \<Rightarrow> nat \<Rightarrow> u8 list \<Rightarrow> string list \<Rightarrow> string list" where
  "traverse leaves bm labels 0 node_id bm_idx current result = result"
| "traverse leaves bm labels (Suc d) node_id bm_idx current result =
     (if length result > 500000 then result
      else
        let result = (if get_bit leaves node_id \<noteq> 0 then result @ [from_utf8_lossy current] else result) in
        walk leaves bm labels d 100000 node_id bm_idx current result)"
| "walk leaves bm labels d 0 node_id bm_idx current result = result"
| "walk leaves bm labels d (Suc k) node_id bm_idx current result =
     (if \<not> bit_index_in_range bm bm_idx \<or> get_bit bm bm_idx \<noteq> 0 \<or> bm_idx < node_id
        \<or> length labels \<le> bm_idx - node_id then result
      else
        let next_node = count_zeros bm (bm_idx + 1);
            next_bm = select_ith_one bm (next_node - 1) + 1;
            result = traverse leaves bm labels d next_node next_bm (current @ [labels ! (bm_idx - node_id)]) result in
        walk leaves bm labels d k node_id (bm_idx + 1) current result)"
  by pat_completeness auto
termination
  by (relation "inv_image (less_than <*lex*> less_than) (\<lambda>x. case x of
      Inl (_, _, _, d, _) \<Rightarrow> (d, 0) | Inr (_, _, _, d, k, _) \<Rightarrow> (d, Suc k))") auto

declare traverse.simps [simp del] walk.simps [simp del]

definition succinct_keys :: "u64 list \<Rightarrow> u64 list \<Rightarrow> u8 list \<Rightarrow> string list" where
  "succinct_keys leaves label_bitmap labels = traverse leaves label_bitmap labels 4097 0 0 [] []"

definition split_keys :: "string list \<Rightarrow> string list \<times> string list" where
  "split_keys keys =
     (let rs = map reverse_domain (filter (\<lambda>k. k \<noteq> []) keys);
          suffix = (\<lambda>s. s \<noteq> [] \<and> (hd s = CHR 0x0D \<or> hd s = CHR 0x0A)) in
      (filter (\<lambda>s. \<not> suffix s) rs, map tl (filter suffix rs)))"

definition read_domain_matcher :: "bytes \<Rightarrow> ((string list \<times> string list) \<times> bytes) res" where
  "read_domain_matcher r =
     bindR (read_u8 r) (\<lambda>(_, r).
     bindR (read_u64_list r) (\<lambda>(leaves, r).
     bindR (read_u64_list r) (\<lambda>(label_bitmap, r).
     bindR (read_bytes r) (\<lambda>(labels, r).
     Inr (split_keys (succinct_keys leaves label_bitmap labels), r)))))"

subsection \<open>Rules\<close>

record SrsCompiled =
  srs_domains :: "string list"
  srs_domain_suffixes :: "string list"
  srs_domain_keywords :: "string list"
  srs_ip_cidrs :: "string list"
  srs_ip_ranges :: "(IpAddr \<times> IpAddr) list"

definition SrsCompiled_default :: SrsCompiled where
  "SrsCompiled_default = \<lparr>srs_domains = [], srs_domain_suffixes = [], srs_domain_keywords = [],
     srs_ip_cidrs = [], srs_ip_ranges = []\<rparr>"

definition skip_rule_item :: "u8 \<Rightarrow> bytes \<Rightarrow> (unit \<times> bytes) res" where
  "skip_rule_item item r =
     (if item \<in> {0, 7, 9} then bindR (read_u16_list r) (\<lambda>(_, r). Inr ((), r))
      else if item \<in> {1, 3, 4, 8, 10, 11, 12, 13, 14, 15, 17, 23} then
        bindR (read_string_list r) (\<lambda>(_, r). Inr ((), r))
      else if item \<in> {2, 16} then bindR (read_domain_matcher r) (\<lambda>(_, r). Inr ((), r))
      else if item \<in> {5, 6} then bindR (read_ip_set r) (\<lambda>(_, r). Inr ((), r))
      else if item = 18 then bindR (read_bytes r) (\<lambda>(_, r). Inr ((), r))
      else if item \<in> {19, 20} then Inr ((), r)
      else if item \<in> {21, 22} then skip_prefix_map r
      else Inr ((), r))"

definition add_range :: "IpAddr \<times> IpAddr \<Rightarrow> SrsCompiled \<Rightarrow> SrsCompiled" where
  "add_range ft out =
     (case ft of (from, to) \<Rightarrow>
        if from = to then
          (case from of
             V4 a \<Rightarrow> out\<lparr>srs_ip_cidrs := srs_ip_cidrs out @ [show_ipv4 a @ ''/32'']\<rparr>
           | V6 a \<Rightarrow> out\<lparr>srs_ip_cidrs := srs_ip_cidrs out @ [show_ipv6 a @ ''/128'']\<rparr>)
        else out\<lparr>srs_ip_ranges := srs_ip_ranges out @ [(from, to)]\<rparr>)"

definition parse_item :: "u8 \<Rightarrow> bytes \<Rightarrow> SrsCompiled \<Rightarrow> (SrsCompiled \<times> bytes) res" where
  "parse_item item r out =
     (if item = RULE_ITEM_DOMAIN then
        bindR (read_domain_matcher r) (\<lambda>((ds, ss), r).
        Inr (out\<lparr>srs_domains := srs_domains out @ ds, srs_domain_suffixes := srs_domain_suffixes out @ ss\<rparr>, r))
      else if item = RULE_ITEM_DOMAIN_KEYWORD then
        bindR (read_string_list r) (\<lambda>(ks, r).
        Inr (out\<lparr>srs_domain_keywords := srs_domain_keywords out @ ks\<rparr>, r))
      else if item = RULE_ITEM_IPCIDR then
        bindR (read_ip_set r) (\<lambda>(ranges, r). Inr (fold (add_range) ranges out, r))
      else bindR (skip_rule_item item r) (\<lambda>(_, r). Inr (out, r)))"

text \<open>
  Readers never give back more bytes than they were given, which is why the loop over the
  items of a rule ends.
\<close>

definition shrinks :: "(bytes \<Rightarrow> ('a \<times> bytes) res) \<Rightarrow> bool" where
  "shrinks rd \<longleftrightarrow> (\<forall>r x r'. rd r = Inr (x, r') \<longrightarrow> length r' \<le> length r)"

named_theorems shrinks_intro \<open>readers that do not extend their input\<close>

lemma shrinksD: "shrinks rd \<Longrightarrow> rd r = Inr (x, r') \<Longrightarrow> length r' \<le> length r"
  unfolding shrinks_def by blast

lemma shrinks_bind [shrinks_intro]:
  assumes "shrinks rd" "\<And>x. shrinks (f x)"
  shows "shrinks (\<lambda>r. bindR (rd r) (\<lambda>(x, r). f x r))"
  unfolding shrinks_def
proof (intro allI impI)
  fix r y r'
  assume "bindR (rd r) (\<lambda>(x, r). f x r) = Inr (y, r')"
  then obtain x r1 where "rd r = Inr (x, r1)" "f x r1 = Inr (y, r')" by auto
  with shrinksD [OF assms(1)] shrinksD [OF assms(2)] show "length r' \<le> length r"
    using order.trans by blast
qed

lemma shrinks_guard [shrinks_intro]:
  "(\<And>x. shrinks (f x)) \<Longrightarrow> shrinks (\<lambda>r. bindR m (\<lambda>x. f x r))"
  by (auto simp: shrinks_def)

lemma shrinks_return [shrinks_intro]: "shrinks (\<lambda>r. Inr (x, r))"
  by (simp add: shrinks_def)

lemma shrinks_fail [shrinks_intro]: "shrinks (\<lambda>r. Inl e)"
  by (simp add: shrinks_def)

lemma shrinks_if [shrinks_intro]:
  "shrinks f \<Longrightarrow> shrinks g \<Longrightarrow> shrinks (\<lambda>r. if b then f r else g r)"
  by (cases b) simp_all

lemma shrinks_prod [shrinks_intro]:
  "(\<And>a b. shrinks (f a b)) \<Longrightarrow> shrinks (\<lambda>r. case p of (a, b) \<Rightarrow> f a b r)"
  by (cases p) simp

lemma shrinks_read_exact [shrinks_intro]: "shrinks (read_exact n)"
  by (auto simp: shrinks_def read_exact_def split: if_splits)

lemma shrinks_read_u8 [shrinks_intro]: "shrinks read_u8"
  unfolding read_u8_def by (intro shrinks_intro)

lemma uvarint_loop_shrinks: "uvarint_loop x s r = Inr (v, r') \<Longrightarrow> length r' < length r"
  by (induction x s r rule: uvarint_loop.induct) (auto split: if_splits)

lemma shrinks_read_uvarint [shrinks_intro]: "shrinks read_uvarint"
  unfolding read_uvarint_def shrinks_def using uvarint_loop_shrinks less_imp_le by blast

lemma shrinks_decode_many [shrinks_intro]:
  assumes "shrinks rd"
  shows "shrinks (decode_many rd n)"
proof (induction n)
  case 0
  then show ?case by (simp add: shrinks_def)
next
  case (Suc n)
  with assms have "shrinks (\<lambda>r. bindR (rd r) (\<lambda>(x, r). bindR (decode_many rd n r) (\<lambda>(xs, r). Inr (x # xs, r))))"
    by (intro shrinks_intro)
  then show ?case by (simp add: shrinks_def)
qed

lemma shrinks_readers [shrinks_intro]:
  "shrinks rd \<Longrightarrow> shrinks (read_counted k rd)"
  "shrinks read_bytes"
  "shrinks read_string"
  "shrinks read_string_list"
  "shrinks read_u16_list"
  "shrinks read_u64_list"
  "shrinks read_ip"
  "shrinks read_ip_set"
  "shrinks skip_prefix_map"
  "shrinks read_domain_matcher"
  unfolding read_counted_def read_bytes_def read_string_def read_string_list_def read_u16_list_def
    read_u64_list_def read_ip_def read_ip_set_def skip_prefix_map_def read_domain_matcher_def
    read_u16_be_def read_u64_be_def read_ip_pair_def read_prefixes_def read_ip_prefix_def
  by (intro shrinks_intro; simp)+

lemma shrinks_skip_rule_item [shrinks_intro]: "shrinks (skip_rule_item item)"
  unfolding skip_rule_item_def by (intro shrinks_intro)

lemma shrinks_parse_item: "shrinks (\<lambda>r. parse_item item r out)"
  unfolding parse_item_def by (intro shrinks_intro) (auto split: prod.split intro: shrinks_intro)

function parse_default_rule :: "bytes \<Rightarrow> SrsCompiled \<Rightarrow> (SrsCompiled \<times> bytes) res" where
  "parse_default_rule r out =
     (case read_u8 r of
        Inl e \<Rightarrow> Inl e
      | Inr (item, r) \<Rightarrow>
          if item = RULE_ITEM_FINAL then bindR (read_u8 r) (\<lambda>(_, r). Inr (out, r))
          else
            (case parse_item item r out of
               Inl e \<Rightarrow> Inl e
             | Inr (out, r) \<Rightarrow> parse_default_rule r out))"
  by pat_completeness auto
termination
proof (relation "measure (\<lambda>(r, out). length r)")
  fix r out p item r1 q out2 r2
  assume *: "read_u8 r = Inr p" "(item, r1) = p" "parse_item item r1 out = Inr q" "(out2, r2) = q"
  then have "length r1 < length r" by (auto simp: read_u8_def read_exact_def split: if_splits)
  moreover have "length r2 \<le> length r1" using * shrinksD [OF shrinks_parse_item] by blast
  ultimately show "((r2, out2), (r, out)) \<in> measure (\<lambda>(r, out). length r)" by simp
qed simp

declare parse_default_rule.simps [simp del]

function parse_rules ::
    "string \<Rightarrow> nat \<Rightarrow> nat \<Rightarrow> bytes \<Rightarrow> SrsCompiled \<Rightarrow> (SrsCompiled \<times> bytes) res"
  and parse_logical_rule ::
    "nat \<Rightarrow> bytes \<Rightarrow> SrsCompiled \<Rightarrow> (SrsCompiled \<times> bytes) res" where
  "parse_rules msg stack 0 r out = Inr (out, r)"
| "parse_rules msg stack (Suc n) r out =
     bindR (read_u8 r) (\<lambda>(rule_type, r).
     bindR (if rule_type = 0 then parse_default_rule r out
            else if rule_type = 1 then parse_logical_rule stack r out
            else Inl (Err msg)) (\<lambda>(out, r).
     parse_rules msg stack n r out))"
| "parse_logical_rule 0 r out = Inl (Panic ''stack overflow'')"
| "parse_logical_rule (Suc stack) r out =
     bindR (read_u8 r) (\<lambda>(_, r).
     bindR (read_uvarint r) (\<lambda>(c, r).
     parse_rules ''unknown nested srs rule type'' stack (unat c) r out))"
  by pat_completeness auto
termination
  by (relation "inv_image (less_than <*lex*> less_than) (\<lambda>x. case x of
      Inl (_, stack, n, _) \<Rightarrow> (stack, n) | Inr (stack, _) \<Rightarrow> (stack, 0))") auto

declare parse_rules.simps [simp del] parse_logical_rule.simps [simp del]

text \<open>\<open>inflate\<close> gives the decompressed bytes, or none if the stream is damaged.\<close>

definition parse_srs ::
    "(bytes \<Rightarrow> bytes option) \<Rightarrow> nat \<Rightarrow> bytes \<Rightarrow> SrsCompiled res" where
  "parse_srs inflate stack data =
     (if length data < 5 \<or> take 3 data \<noteq> SRS_MAGIC then Inl (Err ''invalid binary rule-set file'')
      else
        bindR (with_context ''decompress srs'' (inflate (drop 4 data))) (\<lambda>decompressed.
        bindR (read_uvarint decompressed) (\<lambda>(rule_count, r).
        bindR (parse_rules ''unknown srs rule type'' stack (unat rule_count) r SrsCompiled_default)
          (\<lambda>(out, _). Inr out))))"


section \<open>Rank and select\<close>

text \<open>The bitmap as a list of bits, least significant bit of the first word first.\<close>

definition bits_of :: "u64 list \<Rightarrow> bool list" where
  "bits_of ws = concat (map (\<lambda>w. map (bit w) [0..<64]) ws)"

lemma length_bits_of [simp]: "length (bits_of ws) = 64 * length ws"
  by (induction ws) (simp_all add: bits_of_def)

lemma nth_bits_of:
  "i < 64 * length ws \<Longrightarrow> bits_of ws ! i = bit (ws ! (i div 64)) (i mod 64)"
proof (induction ws arbitrary: i)
  case Nil
  then show ?case by simp
next
  case (Cons w ws)
  show ?case
  proof (cases "i < 64")
    case True
    then show ?thesis by (simp add: bits_of_def nth_append)
  next
    case False
    then obtain j where j: "i = 64 + j" by (metis le_iff_add not_less)
    then have "bits_of (w # ws) ! i = bits_of ws ! j" by (simp add: bits_of_def nth_append)
    moreover have "i div 64 = Suc (j div 64)" "i mod 64 = j mod 64" using j by simp_all
    ultimately show ?thesis using Cons j by simp
  qed
qed

lemma and_single_bit: "(w :: u64) AND push_bit n 1 \<noteq> 0 \<longleftrightarrow> bit w n"
  by (metis and_exp_eq_0_iff_not_bit push_bit_of_1)

lemma get_bit_iff: "get_bit ws i \<noteq> 0 \<longleftrightarrow> i < 64 * length ws \<and> bits_of ws ! i"
proof (cases "i < 64 * length ws")
  case True
  then have "i div 64 < length ws" by (simp add: less_mult_imp_div_less mult.commute)
  with True show ?thesis
    by (simp add: get_bit_def and_single_bit nth_bits_of drop_bit_eq_div del: push_bit_of_1)
next
  case False
  then have "\<not> i div 64 < length ws" by (simp add: div_less_iff_less_mult mult.commute)
  with False show ?thesis by (simp add: get_bit_def drop_bit_eq_div)
qed


lemma count_ones_mask:
  assumes "e \<le> 64"
  shows "count_ones (w AND mask e) = length (filter (bit w) [0..<e])"
proof -
  have "filter (bit (w AND mask e)) [0..<64] = filter (\<lambda>n. n < e \<and> bit w n) [0..<64]"
    by (rule filter_cong) (auto simp: bit_simps)
  also have "\<dots> = filter (\<lambda>n. n < e \<and> bit w n) ([0..<e] @ [e..<64])"
    using assms by (metis le_add_diff_inverse upt_add_eq_append zero_order(1))
  also have "\<dots> = filter (bit w) [0..<e]"
    by (auto intro: filter_cong simp: filter_empty_conv)
  finally show ?thesis by (simp add: count_ones_def)
qed

definition ones_in :: "u64 list \<Rightarrow> nat \<Rightarrow> nat \<Rightarrow> nat" where
  "ones_in bm i k = count_ones (words_get bm k AND mask (if k = i div 64 then i mod 64 else 64))"

lemma count_zeros_ones: "count_zeros bm i = i - sum_list (map (ones_in bm i) [0..<Suc (i div 64)])"
proof -
  have m: "(let e = (if k = drop_bit 6 i then i mod 64 else 64);
        m = (if e = 64 then - 1 else if e = 0 then 0 else push_bit e 1 - 1) in
      count_ones (words_get bm k AND m)) = ones_in bm i k" for k
  proof -
    have d: "drop_bit 6 i = i div 64" by (simp add: drop_bit_eq_div)
    have "(mask 64 :: u64) = - 1" by (simp add: mask_eq_exp_minus_1)
    moreover have "(mask e :: u64) = push_bit e 1 - 1" for e by (simp add: mask_eq_exp_minus_1)
    ultimately show ?thesis
      by (simp only: ones_in_def Let_def d) (auto simp del: push_bit_of_1 simp flip: d)
  qed
  show ?thesis unfolding count_zeros_def m by (simp add: Let_def drop_bit_eq_div)
qed

lemma ones_sum:
  "sum_list (map (ones_in bm i) [0..<Suc (i div 64)]) = length (filter (\<lambda>b. b) (take i (bits_of bm)))"
proof (induction bm arbitrary: i)
  case Nil
  have "ones_in [] i k = 0" for k by (simp add: ones_in_def words_get_def count_ones_def)
  then show ?case by (simp add: bits_of_def sum_list_0)
next
  case (Cons w ws)
  have hd: "length (filter (bit w) [0..<e]) = length (filter (\<lambda>b. b) (map (bit w) [0..<e]))" for e
    by (simp add: filter_map o_def)
  show ?case
  proof (cases "i < 64")
    case True
    have "take i (bits_of (w # ws)) = map (bit w) [0..<i]"
      using True by (simp add: bits_of_def take_map)
    with True hd [of i] count_ones_mask [of i w] show ?thesis
      by (simp add: ones_in_def words_get_def o_def)
  next
    case False
    then obtain j where j: "i = 64 + j" by (metis le_iff_add not_less)
    then have q: "i div 64 = Suc (j div 64)" "i mod 64 = j mod 64" by simp_all
    have tail: "ones_in (w # ws) i (Suc k) = ones_in ws j k" for k
      by (simp add: ones_in_def words_get_def q)
    have "[0..<Suc (Suc (j div 64))] = 0 # map Suc [0..<Suc (j div 64)]"
      by (simp add: map_Suc_upt upt_conv_Cons del: upt_Suc)
    then have "sum_list (map (ones_in (w # ws) i) [0..<Suc (i div 64)]) =
        ones_in (w # ws) i 0 + sum_list (map (ones_in ws j) [0..<Suc (j div 64)])"
      by (simp add: q(1) tail o_def del: upt_Suc)
    also have "ones_in (w # ws) i 0 = length (filter (\<lambda>b. b) (map (bit w) [0..<64]))"
      using hd [of 64] count_ones_mask [of 64 w] by (simp add: ones_in_def words_get_def q(1))
    also have "sum_list (map (ones_in ws j) [0..<Suc (j div 64)]) = length (filter (\<lambda>b. b) (take j (bits_of ws)))"
      by (rule Cons)
    finally show ?thesis by (simp add: bits_of_def j del: upt_Suc)
  qed
qed

lemma length_filter_Not: "length (filter Not xs) = length xs - length (filter (\<lambda>b. b) xs)"
  by (induction xs) (auto simp: Suc_diff_le)

lemma count_zeros_rank:
  "i \<le> 64 * length bm \<Longrightarrow> count_zeros bm i = length (filter Not (take i (bits_of bm)))"
  by (simp add: count_zeros_ones ones_sum length_filter_Not del: upt_Suc)

lemma select_loop_spec:
  "select_loop bm i seen ks =
     (let ones = filter (\<lambda>b. get_bit bm b \<noteq> 0) ks in
      if seen \<le> i \<and> i - seen < length ones then Some (ones ! (i - seen)) else None)"
  if "seen \<le> i"
  using that by (induction bm i seen ks rule: select_loop.induct)
    (auto simp: Let_def nth_Cons' Suc_diff_le split: if_splits)

lemma select_ith_one_spec:
  "select_ith_one bm i =
     (let ones = filter (\<lambda>b. bits_of bm ! b) [0..<64 * length bm] in
      if i < length ones then ones ! i else 64 * length bm)"
proof -
  have "filter (\<lambda>b. get_bit bm b \<noteq> 0) [0..<length bm * 64] = filter (\<lambda>b. bits_of bm ! b) [0..<64 * length bm]"
    by (simp only: get_bit_iff mult.commute [of _ 64]) (rule filter_cong, auto)
  then show ?thesis by (simp only: select_ith_one_def select_loop_spec [OF le0] Let_def) (simp add: mult.commute)
qed


section \<open>The keys of a succinct trie\<close>

text \<open>
  The trie a bitmap encodes: the bits of node \<open>n\<close> start after the \<open>n\<close>-th one bit; each zero
  bit at position \<open>p\<close> up to the next one bit is an edge, labelled by the byte at \<open>p - n\<close>, to the
  node numbered by the zeros up to and including \<open>p\<close>.
\<close>

definition node_start :: "u64 list \<Rightarrow> nat \<Rightarrow> nat" where
  "node_start bm n = (if n = 0 then 0 else select_ith_one bm (n - 1) + 1)"

definition edge_at :: "u64 list \<Rightarrow> u8 list \<Rightarrow> nat \<Rightarrow> nat \<Rightarrow> bool" where
  "edge_at bm labels n p \<longleftrightarrow> n \<le> node_start bm n \<and> node_start bm n \<le> p \<and> p < 64 * length bm \<and>
     (\<forall>q. node_start bm n \<le> q \<and> q \<le> p \<longrightarrow> \<not> bits_of bm ! q) \<and> p - n < length labels"

definition node_at :: "u64 list \<Rightarrow> nat \<Rightarrow> nat" where
  "node_at bm p = length (filter Not (take (Suc p) (bits_of bm)))"

inductive spells :: "u64 list \<Rightarrow> u8 list \<Rightarrow> nat \<Rightarrow> u8 list \<Rightarrow> nat \<Rightarrow> bool" for bm labels where
  spells_Nil: "spells bm labels n [] n"
| spells_Cons: "edge_at bm labels n p \<Longrightarrow> spells bm labels (node_at bm p) w k \<Longrightarrow>
     spells bm labels n (labels ! (p - n) # w) k"

inductive_cases spellsE: "spells bm labels n w k"

definition trie_keys :: "u64 list \<Rightarrow> u64 list \<Rightarrow> u8 list \<Rightarrow> nat \<Rightarrow> nat \<Rightarrow> u8 list \<Rightarrow> string set" where
  "trie_keys leaves bm labels d n current =
     {from_utf8_lossy (current @ w) | w k. spells bm labels n w k \<and> get_bit leaves k \<noteq> 0 \<and> length w < d}"

definition edge_keys :: "u64 list \<Rightarrow> u64 list \<Rightarrow> u8 list \<Rightarrow> nat \<Rightarrow> nat \<Rightarrow> nat \<Rightarrow> u8 list \<Rightarrow> string set" where
  "edge_keys leaves bm labels d n i current =
     (\<Union>p \<in> {p. i \<le> p \<and> edge_at bm labels n p}.
        trie_keys leaves bm labels d (node_at bm p) (current @ [labels ! (p - n)]))"

lemma node_at_pos: "edge_at bm labels n p \<Longrightarrow> 0 < node_at bm p \<and> count_zeros bm (p + 1) = node_at bm p"
proof -
  assume e: "edge_at bm labels n p"
  then have p: "p < length (bits_of bm)" "\<not> bits_of bm ! p" by (auto simp: edge_at_def)
  then have "take (Suc p) (bits_of bm) = take p (bits_of bm) @ [False]"
    by (simp add: take_Suc_conv_app_nth)
  then show ?thesis using e count_zeros_rank [of "p + 1" bm]
    by (simp add: node_at_def edge_at_def)
qed

lemma edge_at_down: "edge_at bm labels n p \<Longrightarrow> node_start bm n \<le> q \<Longrightarrow> q \<le> p \<Longrightarrow> edge_at bm labels n q"
  by (auto simp: edge_at_def)

lemma trie_keys_Suc:
  "trie_keys leaves bm labels (Suc d) n current =
     (if get_bit leaves n \<noteq> 0 then {from_utf8_lossy current} else {}) \<union>
     edge_keys leaves bm labels d n (node_start bm n) current" (is "?l = ?r")
proof (intro subset_antisym subsetI)
  fix x assume "x \<in> ?l"
  then obtain w k where w: "x = from_utf8_lossy (current @ w)" "spells bm labels n w k"
    "get_bit leaves k \<noteq> 0" "length w < Suc d" by (auto simp: trie_keys_def)
  from w(2) show "x \<in> ?r"
  proof (rule spellsE)
    assume "w = []" "k = n"
    with w show ?thesis by simp
  next
    fix p w' assume *: "w = labels ! (p - n) # w'" "edge_at bm labels n p" "spells bm labels (node_at bm p) w' k"
    then have "node_start bm n \<le> p" by (simp add: edge_at_def)
    moreover have "x \<in> trie_keys leaves bm labels d (node_at bm p) (current @ [labels ! (p - n)])"
      using w * by (auto simp: trie_keys_def)
    ultimately show ?thesis using * by (auto simp: edge_keys_def)
  qed
next
  fix x assume x: "x \<in> ?r"
  have "x \<in> ?l" if "get_bit leaves n \<noteq> 0" "x = from_utf8_lossy current"
    using that spells_Nil [of bm labels n] unfolding trie_keys_def by force
  moreover have "x \<in> ?l" if "edge_at bm labels n p"
    "x \<in> trie_keys leaves bm labels d (node_at bm p) (current @ [labels ! (p - n)])" for p
    using that spells_Cons [OF that(1)] unfolding trie_keys_def by fastforce
  ultimately show "x \<in> ?l" using x by (auto simp: edge_keys_def split: if_splits)
qed

definition stops_at :: "u64 list \<Rightarrow> u8 list \<Rightarrow> nat \<Rightarrow> nat \<Rightarrow> bool" where
  "stops_at bm labels n i \<longleftrightarrow> \<not> bit_index_in_range bm i \<or> get_bit bm i \<noteq> 0 \<or> i < n \<or> length labels \<le> i - n"

lemma edge_at_step:
  assumes "node_start bm n \<le> i" "\<And>q. node_start bm n \<le> q \<Longrightarrow> q < i \<Longrightarrow> edge_at bm labels n q"
  shows "edge_at bm labels n i \<longleftrightarrow> \<not> stops_at bm labels n i"
proof -
  have r: "bit_index_in_range bm i \<longleftrightarrow> i < 64 * length bm"
    by (cases bm) (auto simp: bit_index_in_range_def drop_bit_eq_div div_less_iff_less_mult)
  show ?thesis
  proof (cases "node_start bm n = i")
    case True
    then show ?thesis by (auto simp: stops_at_def r get_bit_iff edge_at_def)
  next
    case False
    then have e: "edge_at bm labels n (i - 1)" using assms by auto
    have "q \<le> i - 1 \<or> q = i" if "q \<le> i" for q using that by auto
    with e assms(1) show ?thesis
      by (auto simp: stops_at_def r get_bit_iff edge_at_def)
  qed
qed

lemma edge_keys_step:
  assumes "node_start bm n \<le> i"
  shows "edge_keys leaves bm labels d n i current =
    (if edge_at bm labels n i
     then trie_keys leaves bm labels d (node_at bm i) (current @ [labels ! (i - n)]) \<union>
       edge_keys leaves bm labels d n (Suc i) current
     else {})"
proof (cases "edge_at bm labels n i")
  case True
  have "{p. i \<le> p \<and> edge_at bm labels n p} = insert i {p. Suc i \<le> p \<and> edge_at bm labels n p}"
    using True by (auto simp: Suc_le_eq)
  then show ?thesis using True by (simp add: edge_keys_def)
next
  case False
  with assms show ?thesis by (auto simp: edge_keys_def dest: edge_at_down)
qed


lemma walk_Suc:
  "walk leaves bm labels d (Suc k) n i current result =
     (if stops_at bm labels n i then result
      else walk leaves bm labels d k n (i + 1) current
        (traverse leaves bm labels d (count_zeros bm (i + 1))
          (select_ith_one bm (count_zeros bm (i + 1) - 1) + 1) (current @ [labels ! (i - n)]) result))"
  by (simp add: walk.simps stops_at_def Let_def)

lemma traverse_extends:
  "\<exists>ks. traverse leaves bm labels d n i current result = result @ ks"
  "\<exists>ks. walk leaves bm labels d k n i current result = result @ ks"
proof (induction leaves bm labels d n i current result and leaves bm labels d k n i current result
    rule: traverse_walk.induct)
  case (2 leaves bm labels d n i current result)
  then show ?case by (cases "length result > 500000") (force simp: traverse.simps Let_def)+
next
  case (4 leaves bm labels d k n i current result)
  show ?case
  proof (cases "stops_at bm labels n i")
    case False
    then have g: "\<not> (\<not> bit_index_in_range bm i \<or> get_bit bm i \<noteq> 0 \<or> i < n \<or> length labels \<le> i - n)"
      by (simp add: stops_at_def)
    from 4(1) [OF g refl refl] 4(2) [OF g refl refl refl] show ?thesis
      using False unfolding walk_Suc by fastforce
  qed (simp add: walk_Suc)
qed (simp_all add: traverse.simps walk.simps)

lemma traverse_exact:
  assumes fan: "\<And>n p. edge_at bm labels n p \<Longrightarrow> p < node_start bm n + 100000"
  shows "\<lbrakk>length (traverse leaves bm labels d n i current result) \<le> 500000; i = node_start bm n\<rbrakk> \<Longrightarrow>
      set (traverse leaves bm labels d n i current result) = set result \<union> trie_keys leaves bm labels d n current"
    and "\<lbrakk>length (walk leaves bm labels d k n i current result) \<le> 500000; node_start bm n \<le> i;
        \<And>q. node_start bm n \<le> q \<Longrightarrow> q < i \<Longrightarrow> edge_at bm labels n q; node_start bm n + 100000 \<le> i + k\<rbrakk> \<Longrightarrow>
      set (walk leaves bm labels d k n i current result) = set result \<union> edge_keys leaves bm labels d n i current"
  using fan
proof (induction leaves bm labels d n i current result and leaves bm labels d k n i current result
    rule: traverse_walk.induct)
  case (1 leaves bm labels n i current result)
  then show ?case by (simp add: traverse.simps trie_keys_def)
next
  case (2 leaves bm labels d n i current result)
  let ?res = "if get_bit leaves n \<noteq> 0 then result @ [from_utf8_lossy current] else result"
  obtain ks where "traverse leaves bm labels (Suc d) n i current result = result @ ks"
    using traverse_extends(1) by blast
  then have small: "\<not> length result > 500000" using 2(2) by simp
  then have t: "traverse leaves bm labels (Suc d) n i current result = walk leaves bm labels d 100000 n i current ?res"
    by (simp add: traverse.simps Let_def)
  have "set (walk leaves bm labels d 100000 n i current ?res) = set ?res \<union> edge_keys leaves bm labels d n i current"
    by (rule 2(1) [OF small refl]) (use 2 t in auto)
  then show ?case unfolding t trie_keys_Suc using 2(3) by auto
next
  case (3 leaves bm labels d n i current result)
  have "\<not> edge_at bm labels n p" if "i \<le> p" for p using 3(4) 3(5) [of n p] that by auto
  then show ?case by (auto simp: walk.simps edge_keys_def)
next
  case (4 leaves bm labels d k n i current result)
  note step = edge_at_step [OF 4(4) 4(5)]
  show ?case
  proof (cases "stops_at bm labels n i")
    case True
    then show ?thesis using step edge_keys_step [OF 4(4)] by (simp add: walk_Suc)
  next
    case False
    then have e: "edge_at bm labels n i" using step by simp
    let ?m = "count_zeros bm (i + 1)"
    let ?t = "traverse leaves bm labels d ?m (select_ith_one bm (?m - 1) + 1) (current @ [labels ! (i - n)]) result"
    have m: "?m = node_at bm i" "select_ith_one bm (?m - 1) + 1 = node_start bm ?m"
      using node_at_pos [OF e] by (auto simp: node_start_def)
    have w: "walk leaves bm labels d (Suc k) n i current result = walk leaves bm labels d k n (i + 1) current ?t"
      using False by (simp add: walk_Suc)
    then have small: "length (walk leaves bm labels d k n (i + 1) current ?t) \<le> 500000" using 4(3) by simp
    then have small': "length ?t \<le> 500000"
      using traverse_extends(2) [of leaves bm labels d k n "i + 1" current ?t] by (metis add_leD1 length_append)
    from False have g: "\<not> (\<not> bit_index_in_range bm i \<or> get_bit bm i \<noteq> 0 \<or> i < n \<or> length labels \<le> i - n)"
      by (simp add: stops_at_def)
    have "set ?t = set result \<union> trie_keys leaves bm labels d ?m (current @ [labels ! (i - n)])"
      by (rule 4(1) [OF g refl refl]) (use small' m 4(7) in auto)
    moreover have "set (walk leaves bm labels d k n (i + 1) current ?t) = set ?t \<union> edge_keys leaves bm labels d n (i + 1) current"
    proof (rule 4(2) [OF g refl refl refl])
      show "edge_at bm labels n q" if "node_start bm n \<le> q" "q < i + 1" for q
        using that e 4(5) by (cases "q = i") auto
    qed (use small 4 in auto)
    ultimately show ?thesis using e m(1) edge_keys_step [OF 4(4)] by (auto simp: w)
  qed
qed



section \<open>Reading back what was written\<close>

text \<open>The writer of the format, for its integers, strings, addresses and rules.\<close>

fun put_uvarint :: "nat \<Rightarrow> bytes" where
  "put_uvarint n = (if n < 128 then [of_nat n] else of_nat (n mod 128 + 128) # put_uvarint (n div 128))"

declare put_uvarint.simps [simp del]

lemma ucast_of_nat_u8: "n < 256 \<Longrightarrow> (ucast (of_nat n :: u8) :: u64) = of_nat n"
  using take_bit_nat_eq_self [of n 8] by (simp add: unsigned_of_nat)

lemma uvarint_digit: "((of_nat (n mod 128 + 128) :: u8) AND 0x7f) = of_nat (n mod 128)"
proof -
  have "(0x7f :: u8) = mask 7" by (simp add: mask_eq_exp_minus_1)
  moreover have "unat (take_bit 7 (of_nat (n mod 128 + 128) :: u8)) = unat (of_nat (n mod 128) :: u8)"
    by (simp only: unsigned_take_bit_eq unat_of_nat) (simp add: take_bit_eq_mod)
  ultimately show ?thesis by (metis take_bit_eq_mask word_unat_eq_iff)
qed

lemma uvarint_join:
  "push_bit s (of_nat (n mod 128)) OR push_bit (s + 7) (of_nat (n div 128)) = (push_bit s (of_nat n) :: u64)"
proof -
  have "take_bit 7 (of_nat (n mod 128) :: u64) = of_nat (n mod 128)"
    by (rule take_bit_small) (simp add: word_less_nat_alt unat_of_nat)
  then have "\<not> bit (of_nat (n mod 128) :: u64) k" if "7 \<le> k" for k
    using that by (metis bit_take_bit_iff not_less)
  then have "(of_nat (n mod 128) :: u64) OR push_bit 7 (of_nat (n div 128)) =
      of_nat (n mod 128) + push_bit 7 (of_nat (n div 128))"
    by (intro disjunctive_add [symmetric]) (auto simp: bit_simps)
  also have "\<dots> = of_nat (n mod 128 + 128 * (n div 128))"
    by (simp only: push_bit_eq_mult of_nat_add of_nat_mult) (simp add: mult.commute)
  also have "n mod 128 + 128 * (n div 128) = n" by simp
  finally have "(of_nat (n mod 128) :: u64) OR push_bit 7 (of_nat (n div 128)) = of_nat n" by simp
  then have "push_bit s ((of_nat (n mod 128) :: u64) OR push_bit 7 (of_nat (n div 128))) = push_bit s (of_nat n)"
    by simp
  then show ?thesis by (simp add: push_bit_or add.commute)
qed

lemma uvarint_loop_put:
  assumes "n * 2 ^ s < 2 ^ 64" "n = 0 \<Longrightarrow> s = 0"
  shows "uvarint_loop x (of_nat s) (put_uvarint n @ rest) = Inr (x OR push_bit s (of_nat n), rest)"
  using assms
proof (induction n arbitrary: x s rule: put_uvarint.induct)
  case (1 n)
  have s: "s < 64"
  proof (rule ccontr)
    assume "\<not> s < 64"
    then have "2 ^ 64 \<le> (2 :: nat) ^ s" by (intro power_increasing) auto
    moreover have "n \<noteq> 0" using 1(3) \<open>\<not> s < 64\<close> by auto
    ultimately show False using 1(2) by (metis leD le_trans mult_le_mono1 nat_mult_1 not_gr_zero Suc_leI One_nat_def)
  qed
  have us: "unat (of_nat s :: u32) = s" using s by (simp add: unat_of_nat)
  show ?case
  proof (cases "n < 128")
    case True
    have "\<not> (of_nat s :: u32) > 63" using s by (simp add: word_less_nat_alt us)
    moreover have "\<not> ((of_nat s :: u32) = 63 \<and> (of_nat n :: u8) > 1)"
    proof
      assume *: "(of_nat s :: u32) = 63 \<and> (of_nat n :: u8) > 1"
      then have "s = unat (63 :: u32)" using us by metis
      then have "s = 63" by simp
      then have "n \<le> 1" using 1(2) by simp
      then show False using * by (cases n) auto
    qed
    moreover have "(of_nat n :: u8) < 0x80" using True by (simp add: word_less_nat_alt unat_of_nat)
    moreover have "(ucast (of_nat n :: u8) :: u64) = of_nat n" using True by (simp add: ucast_of_nat_u8)
    ultimately show ?thesis using True s us by (simp add: put_uvarint.simps [of n] wrapping_shl_def)
  next
    case False
    then have "128 * 2 ^ s \<le> n * 2 ^ s" by simp
    moreover have "(2 :: nat) ^ (s + 7) = 128 * 2 ^ s" by (simp add: power_add)
    ultimately have "(2 :: nat) ^ (s + 7) < 2 ^ 64" using 1(2) by linarith
    then have s7: "s + 7 < 64" using power_less_imp_less_exp [of 2 "s + 7" 64] by simp
    have "n div 128 * 2 ^ (s + 7) = n div 128 * 128 * 2 ^ s" by (simp add: power_add)
    also have "\<dots> \<le> n * 2 ^ s" by (rule mult_le_mono1) (metis div_times_less_eq_dividend)
    finally have "n div 128 * 2 ^ (s + 7) < 2 ^ 64" using 1(2) by linarith
    moreover have "n div 128 \<noteq> 0" using False by auto
    ultimately have IH: "uvarint_loop y (of_nat (s + 7)) (put_uvarint (n div 128) @ rest) =
        Inr (y OR push_bit (s + 7) (of_nat (n div 128)), rest)" for y
      by (intro 1(1) [OF False]) simp_all
    let ?b = "of_nat (n mod 128 + 128) :: u8"
    have "unat ?b = n mod 128 + 128" by (simp only: unat_of_nat) simp
    then have b: "\<not> ?b < 0x80" by (simp add: word_less_nat_alt)
    have "(ucast (?b AND 0x7f) :: u64) = of_nat (n mod 128)"
      unfolding uvarint_digit by (rule ucast_of_nat_u8) simp
    moreover have st: "(of_nat s :: u32) + 7 = of_nat (s + 7)" by simp
    ultimately show ?thesis using False b IH s us uvarint_join [of s n]
      by (simp add: put_uvarint.simps [of n] wrapping_shl_def or.assoc st del: of_nat_add)
  qed
qed


interpretation uvarint: prefix_codec "\<lambda>v. put_uvarint (unat v)" read_uvarint "\<lambda>v. True"
proof unfold_locales
  fix v :: u64 and rest
  have "uvarint_loop 0 (of_nat 0) (put_uvarint (unat v) @ rest) = Inr (0 OR push_bit 0 (of_nat (unat v)), rest)"
    by (rule uvarint_loop_put) (use unsigned_less [of v] in simp_all)
  then show "read_uvarint (put_uvarint (unat v) @ rest) = Inr (v, rest)"
    by (simp add: read_uvarint_def)
qed

lemma read_uvarint_put [codec_simps]:
  "n < 2 ^ 64 \<Longrightarrow> read_uvarint (put_uvarint n @ rest) = Inr (of_nat n, rest)"
  "n < 2 ^ 64 \<Longrightarrow> unat (of_nat n :: u64) = n"
  using uvarint.dec_enc [of "of_nat n" rest] by (simp_all add: unat_of_nat)

lemma read_exact_append [codec_simps]: "read_exact (length xs) (xs @ rest) = Inr (xs, rest)"
  by (simp add: read_exact_def)

lemma read_u8_Cons [codec_simps]: "read_u8 (b # r) = Inr (b, r)"
  by (simp add: read_u8_def read_exact_def)

definition put_bytes :: "bytes \<Rightarrow> bytes" where
  "put_bytes bs = put_uvarint (length bs) @ bs"

definition fits :: "'a list \<Rightarrow> bool" where
  "fits xs \<longleftrightarrow> length xs < 2 ^ 57"

lemma read_bytes_put [codec_simps]: "fits bs \<Longrightarrow> read_bytes (put_bytes bs @ rest) = Inr (bs, rest)"
  by (simp add: read_bytes_def put_bytes_def fits_def with_capacity_def codec_simps)

definition put_string :: "string \<Rightarrow> bytes" where
  "put_string s = put_bytes (as_bytes s)"

fun put_ip :: "IpAddr \<Rightarrow> bytes" where
  "put_ip (V4 a) = put_bytes (be_bytes 4 a)"
| "put_ip (V6 a) = put_bytes (be_bytes 16 a)"

definition put_ip_pair :: "IpAddr \<times> IpAddr \<Rightarrow> bytes" where
  "put_ip_pair p = put_ip (fst p) @ put_ip (snd p)"

interpretation srs_string: prefix_codec put_string read_string "\<lambda>s. valid_str s \<and> fits s"
  by unfold_locales (simp add: read_string_def put_string_def codec_simps fits_def)

lemma read_ip_put [codec_simps]: "read_ip (put_ip a @ rest) = Inr (a, rest)"
  by (cases a) (simp_all add: read_ip_def codec_simps fits_def be_fold_be_bytes del: be_bytes_numeral)

interpretation srs_ip_pair: prefix_codec put_ip_pair read_ip_pair "\<lambda>p. True"
  by unfold_locales (simp add: read_ip_pair_def put_ip_pair_def codec_simps split: prod.splits)

text \<open>A default rule with keywords and address ranges, and a list of such rules.\<close>

definition put_rule :: "string list \<times> (IpAddr \<times> IpAddr) list \<Rightarrow> bytes" where
  "put_rule rule =
     [0, RULE_ITEM_DOMAIN_KEYWORD] @ put_uvarint (length (fst rule)) @ concat (map put_string (fst rule)) @
     [RULE_ITEM_IPCIDR, 1] @ be_bytes 8 (of_nat (length (snd rule)) :: u64) @ concat (map put_ip_pair (snd rule)) @
     [RULE_ITEM_FINAL, 0]"

definition rule_ok :: "string list \<times> (IpAddr \<times> IpAddr) list \<Rightarrow> bool" where
  "rule_ok rule \<longleftrightarrow> fits (fst rule) \<and> fits (snd rule) \<and> list_all (\<lambda>s. valid_str s \<and> fits s) (fst rule)"

definition add_rule :: "string list \<times> (IpAddr \<times> IpAddr) list \<Rightarrow> SrsCompiled \<Rightarrow> SrsCompiled" where
  "add_rule rule out =
     fold (add_range) (snd rule) (out\<lparr>srs_domain_keywords := srs_domain_keywords out @ fst rule\<rparr>)"

lemma read_string_list_put [codec_simps]:
  "fits ss \<Longrightarrow> list_all (\<lambda>s. valid_str s \<and> fits s) ss \<Longrightarrow>
   read_string_list (put_uvarint (length ss) @ concat (map put_string ss) @ rest) = Inr (ss, rest)"
  by (simp add: read_string_list_def read_counted_def codec_simps with_capacity_def fits_def
      srs_string.decode_many_concat list_all_iff)

lemma read_ip_set_put [codec_simps]:
  assumes "fits rs"
  shows "read_ip_set (1 # be_bytes 8 (of_nat (length rs) :: u64) @ concat (map put_ip_pair rs) @ rest) = Inr (rs, rest)"
proof -
  have "read_u64_be (be_bytes 8 (of_nat (length rs) :: u64) @ r) = Inr (of_nat (length rs), r)" for r
    by (simp add: read_u64_be_def read_exact_def be_fold_be_bytes del: be_bytes_numeral)
  then show ?thesis using assms
    by (simp add: read_ip_set_def codec_simps with_capacity_def fits_def srs_ip_pair.decode_many_concat
        del: be_bytes_numeral)
qed

lemma parse_default_rule_put:
  assumes "rule_ok rule"
  shows "parse_default_rule (tl (put_rule rule) @ rest) out = Inr (add_rule rule out, rest)"
  using assms
  by (simp add: put_rule_def rule_ok_def add_rule_def parse_default_rule.simps parse_item_def codec_simps
      RULE_ITEM_DOMAIN_def RULE_ITEM_DOMAIN_KEYWORD_def RULE_ITEM_IPCIDR_def RULE_ITEM_FINAL_def
      del: be_bytes_numeral)

lemma parse_rules_put:
  "list_all rule_ok rules \<Longrightarrow>
   parse_rules msg stack (length rules) (concat (map put_rule rules) @ rest) out =
     Inr (fold (add_rule) rules out, rest)"
proof (induction rules arbitrary: out)
  case Nil
  then show ?case by (simp add: parse_rules.simps)
next
  case (Cons rule rules)
  have p: "put_rule rule = 0 # tl (put_rule rule)" by (simp add: put_rule_def)
  show ?case using Cons parse_default_rule_put [of rule "concat (map put_rule rules) @ rest" out]
    by (subst list.map, subst concat.simps, subst p)
      (simp add: parse_rules.simps codec_simps)
qed


lemma parse_srs_put:
  assumes "5 \<le> length data" "take 3 data = SRS_MAGIC"
    "inflate (drop 4 data) = Some (put_uvarint (length rules) @ concat (map put_rule rules))"
    "list_all rule_ok rules" "fits rules"
  shows "parse_srs inflate stack data = Inr (fold (add_rule) rules SrsCompiled_default)"
  using assms parse_rules_put [OF assms(4), where rest = "[]"]
  by (simp add: parse_srs_def codec_simps fits_def)

section \<open>Damaged files\<close>

definition cap_only :: "'a res \<Rightarrow> bool" where
  "cap_only m \<longleftrightarrow> (\<forall>e. m = Inl e \<longrightarrow> is_Panic e \<longrightarrow> e = Panic ''capacity overflow'')"

named_theorems cap_intro \<open>results whose only panic is a capacity overflow\<close>

lemma cap_only_simps [cap_intro]:
  "cap_only (Inr x)" "cap_only (Inl (Err e))" "cap_only (read_exact n r)" "cap_only (with_capacity n k)"
  "cap_only (with_context msg v)"
  by (auto simp: cap_only_def read_exact_def with_capacity_def with_context_def split: option.splits)

lemma cap_only_bind [cap_intro]:
  "cap_only m \<Longrightarrow> (\<And>x. m = Inr x \<Longrightarrow> cap_only (f x)) \<Longrightarrow> cap_only (bindR m f)"
  by (cases m) (auto simp: cap_only_def)

lemma cap_only_prod [cap_intro]: "(\<And>a b. p = (a, b) \<Longrightarrow> cap_only (f a b)) \<Longrightarrow> cap_only (case p of (a, b) \<Rightarrow> f a b)"
  by (cases p) simp

lemma cap_only_if [cap_intro]:
  "(b \<Longrightarrow> cap_only x) \<Longrightarrow> (\<not> b \<Longrightarrow> cap_only y) \<Longrightarrow> cap_only (if b then x else y)"
  by simp

lemma cap_only_uvarint [cap_intro]: "cap_only (read_uvarint r)"
proof -
  have "cap_only (uvarint_loop x s r)" for x s
    by (induction x s r rule: uvarint_loop.induct) (auto simp: cap_only_def)
  then show ?thesis by (simp add: read_uvarint_def)
qed

lemma cap_only_many [cap_intro]: "(\<And>r. cap_only (rd r)) \<Longrightarrow> cap_only (decode_many rd n r)"
  by (induction n arbitrary: r) (simp_all add: cap_intro split_beta)

lemma cap_only_readers [cap_intro]:
  "cap_only (read_u8 r)" "cap_only (read_bytes r)"
  "(\<And>r. cap_only (rd r)) \<Longrightarrow> cap_only (read_counted k rd r)"
  by (simp_all add: cap_intro read_u8_def read_bytes_def read_counted_def split_beta)

lemma cap_only_items [cap_intro]:
  "cap_only (read_string_list r)" "cap_only (read_u16_list r)" "cap_only (read_ip_set r)"
  "cap_only (read_domain_matcher r)" "cap_only (skip_prefix_map r)"
  by (simp_all add: cap_intro read_string_list_def read_string_def read_u16_list_def read_u16_be_def
      read_ip_set_def read_u64_be_def read_ip_pair_def read_ip_def read_domain_matcher_def
      read_u64_list_def skip_prefix_map_def read_prefixes_def read_ip_prefix_def split_beta)

lemma cap_only_parse_item: "cap_only (parse_item item r out)"
  by (simp add: cap_intro parse_item_def skip_rule_item_def split_beta)

lemma cap_only_default_rule [cap_intro]: "cap_only (parse_default_rule r out)"
proof (induction r out rule: parse_default_rule.induct)
  case (1 r out)
  show ?case
  proof (cases "read_u8 r")
    case (Inl e)
    then show ?thesis using cap_only_readers(1) [of r]
      by (subst parse_default_rule.simps) (simp add: cap_only_def)
  next
    case (Inr q)
    obtain item r1 where q: "q = (item, r1)" by (cases q)
    have "cap_only (case parse_item item r1 out of Inl e \<Rightarrow> Inl e | Inr (out, r) \<Rightarrow> parse_default_rule r out)"
      if "item \<noteq> RULE_ITEM_FINAL"
      using 1 [OF Inr q [symmetric] that] cap_only_parse_item [of item r1 out]
      by (auto simp: cap_only_def split: sum.splits prod.splits)
    then show ?thesis using Inr q
      by (subst parse_default_rule.simps) (auto simp: cap_intro split_beta)
  qed
qed


lemma read_u8_length: "read_u8 r = Inr (b, r') \<Longrightarrow> length r = Suc (length r')"
  by (auto simp: read_u8_def read_exact_def split: if_splits)

lemma read_uvarint_shrinks: "read_uvarint r = Inr (v, r') \<Longrightarrow> length r' < length r"
  by (simp add: read_uvarint_def uvarint_loop_shrinks)

lemma parse_default_rule_shrinks: "parse_default_rule r out = Inr (out', r') \<Longrightarrow> length r' \<le> length r"
proof (induction r out rule: parse_default_rule.induct)
  case (1 r out)
  from 1(2) obtain item r1 where r1: "read_u8 r = Inr (item, r1)"
    by (subst (asm) parse_default_rule.simps) (auto split: sum.splits)
  then have l: "length r = Suc (length r1)" by (rule read_u8_length)
  show ?case
  proof (cases "item = RULE_ITEM_FINAL")
    case True
    then show ?thesis using 1(2) r1 l
      by (subst (asm) parse_default_rule.simps) (auto dest: read_u8_length)
  next
    case False
    then obtain out2 r2 where *: "parse_item item r1 out = Inr (out2, r2)"
      "parse_default_rule r2 out2 = Inr (out', r')"
      using 1(2) r1 by (subst (asm) parse_default_rule.simps) (auto split: sum.splits)
    from 1(1) [OF r1 refl False *(1) refl *(2)] shrinksD [OF shrinks_parse_item *(1)] l show ?thesis by simp
  qed
qed

lemma parse_rules_shrinks:
  "parse_rules msg stack n r out = Inr (out', r') \<Longrightarrow> length r' \<le> length r"
  "parse_logical_rule stack r out = Inr (out', r') \<Longrightarrow> length r' \<le> length r"
proof (induction msg stack n r out and stack r out arbitrary: out' r' and out' r'
    rule: parse_rules_parse_logical_rule.induct)
  case (2 msg stack n r out)
  from 2(3) obtain t r1 out2 r2 where *: "read_u8 r = Inr (t, r1)"
    "(if t = 0 then parse_default_rule r1 out else if t = 1 then parse_logical_rule stack r1 out
      else Inl (Err msg)) = Inr (out2, r2)" "parse_rules msg stack n r2 out2 = Inr (out', r')"
    by (auto simp: parse_rules.simps)
  have "length r2 \<le> length r1"
    using *(2) 2(1) [of t r1] parse_default_rule_shrinks by (auto split: if_splits)
  moreover have "length r' \<le> length r2" using 2(2) *(3) by blast
  ultimately show ?case using read_u8_length [OF *(1)] by simp
next
  case (4 stack r out)
  then show ?case
    by (fastforce simp: parse_logical_rule.simps dest: read_u8_length read_uvarint_shrinks)
qed (simp_all add: parse_rules.simps parse_logical_rule.simps)

lemma parse_rules_cap_only:
  "length r \<le> stack \<Longrightarrow> cap_only (parse_rules msg stack n r out)"
  "length r < stack \<Longrightarrow> cap_only (parse_logical_rule stack r out)"
proof (induction msg stack n r out and stack r out
    rule: parse_rules_parse_logical_rule.induct)
  case (2 msg stack n r out)
  show ?case
    unfolding parse_rules.simps
  proof (intro cap_intro)
    fix x t r1 assume "read_u8 r = Inr x" "x = (t, r1)" and t: "t \<noteq> 0" "t = 1"
    then have "length r = Suc (length r1)" using read_u8_length by blast
    then show "cap_only (parse_logical_rule stack r1 out)"
      using 2(1) [OF t] 2(3) by simp
  next
    fix x t r1 y out2 r2 assume *: "read_u8 r = Inr x" "x = (t, r1)"
      "(if t = 0 then parse_default_rule r1 out else if t = 1 then parse_logical_rule stack r1 out
        else Inl (Err msg)) = Inr y" "y = (out2, r2)"
    then have "length r2 \<le> length r1"
      using parse_default_rule_shrinks parse_rules_shrinks(2) by (auto split: if_splits)
    then show "cap_only (parse_rules msg stack n r2 out2)"
      using 2(2) 2(3) read_u8_length * by fastforce
  qed
next
  case (4 stack r out)
  show ?case
    unfolding parse_logical_rule.simps
    by (intro cap_intro 4(1)) (use 4(2) in \<open>auto dest!: read_u8_length read_uvarint_shrinks\<close>)
qed (simp_all add: parse_rules.simps parse_logical_rule.simps cap_intro)


text \<open>
  C25: With a call stack that has room for one nested rule per byte, a file makes the reader
  panic in one way only, by announcing more elements than memory can be reserved for; and 13
  bytes of decompressed data are enough for that.
\<close>
theorem srs_panics_only_on_capacity:
  assumes "case inflate (drop 4 data) of None \<Rightarrow> True | Some d \<Rightarrow> length d \<le> stack"
  shows "(panics (parse_srs inflate stack data) \<longrightarrow>
      parse_srs inflate stack data = Inl (Panic ''capacity overflow'')) \<and>
    parse_srs (\<lambda>_. Some ([1, 0, RULE_ITEM_DOMAIN_KEYWORD] @ replicate 9 0x80 @ [1])) stack
      (SRS_MAGIC @ [1, 0]) = Inl (Panic ''capacity overflow'')"
proof
  have "cap_only (parse_srs inflate stack data)"
    unfolding parse_srs_def
  proof (intro cap_intro)
    fix d x c r
    assume d: "with_context ''decompress srs'' (inflate (drop 4 data)) = Inr d"
      and "read_uvarint d = Inr x" "x = (c, r)"
    then have "length r < length d" using read_uvarint_shrinks by blast
    moreover have "length d \<le> stack" using d assms by (auto simp: with_context_def split: option.splits)
    ultimately show "cap_only (parse_rules ''unknown srs rule type'' stack (unat c) r SrsCompiled_default)"
      by (intro parse_rules_cap_only(1)) simp
  qed
  then show "panics (parse_srs inflate stack data) \<longrightarrow>
      parse_srs inflate stack data = Inl (Panic ''capacity overflow'')"
    by (auto simp: cap_only_def panics_def split: sum.splits)
next
  have r: "replicate 9 (0x80 :: u8) = [0x80, 0x80, 0x80, 0x80, 0x80, 0x80, 0x80, 0x80, 0x80]"
    by (simp add: numeral_eq_Suc)
  have c: "read_uvarint ([0x80, 0x80, 0x80, 0x80, 0x80, 0x80, 0x80, 0x80, 0x80] @ [1]) = Inr (2 ^ 63, [])"
    by code_simp
  then have "parse_default_rule (RULE_ITEM_DOMAIN_KEYWORD # replicate 9 0x80 @ [1]) SrsCompiled_default =
      Inl (Panic ''capacity overflow'')"
    by (simp add: r parse_default_rule.simps read_u8_Cons RULE_ITEM_DOMAIN_KEYWORD_def RULE_ITEM_FINAL_def
        RULE_ITEM_DOMAIN_def parse_item_def read_string_list_def read_counted_def with_capacity_def)
  moreover have "read_uvarint (1 # t) = Inr (1, t)" for t by (simp add: read_uvarint_def wrapping_shl_def)
  ultimately show "parse_srs (\<lambda>_. Some ([1, 0, RULE_ITEM_DOMAIN_KEYWORD] @ replicate 9 0x80 @ [1])) stack
      (SRS_MAGIC @ [1, 0]) = Inl (Panic ''capacity overflow'')"
    by (simp add: parse_srs_def SRS_MAGIC_def parse_rules.simps read_u8_Cons)
qed

theorem srs_panics_only_on_capacity_witness:
  "parse_srs (\<lambda>_. Some ([1, 0, RULE_ITEM_DOMAIN_KEYWORD] @ replicate 9 0x80 @ [1]))  20
     (SRS_MAGIC @ [1, 0]) = Inl (Panic ''capacity overflow'')"
  using srs_panics_only_on_capacity [where inflate = "\<lambda>_. None" and stack = 20] by (simp only: option.case simp_thms)


end
