(* ===== verification/Rule_Sets.thy ===== *)
theory Rule_Sets
  imports Srs "HOL-Library.AList"
begin

text \<open>
  Loading of rule sets (\<^verbatim>\<open>rsb-route/src/lib.rs\<close>, \<^verbatim>\<open>rule_cache.rs\<close>): the text and JSON
  formats, the cache of downloaded files and \<^verbatim>\<open>load_rule_set\<close>. The file system is the list of
  the files with their contents (or the error of reading them) and is passed through; \<open>http\<close>
  answers a request and \<open>wr\<close> says whether a file can be written.
\<close>

section \<open>Definitions\<close>

subsection \<open>Formats\<close>

definition lines :: "string \<Rightarrow> string list" where
  "lines s =
     (let parts = split_char (CHR 0x0A) s;
          cr = (\<lambda>l. case strip_suffix l [CHR 0x0D] of Some t \<Rightarrow> t | None \<Rightarrow> l) in
      map cr (butlast parts) @ (if last parts = [] then [] else [last parts]))"

definition empty_rule_set :: CompiledRuleSet where
  "empty_rule_set = \<lparr>cr_domains = [], cr_domain_suffixes = [], cr_domain_keywords = [],
     cr_ip_cidrs = [], cr_ip_ranges = [], cr_domain_set = [], cr_suffix_set = []\<rparr>"

definition add_text_line :: "string \<Rightarrow> CompiledRuleSet \<Rightarrow> CompiledRuleSet" where
  "add_text_line raw rs =
     (let line = trim raw in
      if line = [] \<or> starts_with line ''#'' \<or> starts_with line ''//'' then rs
      else if CHR ''/'' \<in> set line \<and> is_digit (hd line) then
        rs\<lparr>cr_ip_cidrs := cr_ip_cidrs rs @ [line]\<rparr>
      else if starts_with line ''*.'' \<or> starts_with line ''.'' then
        rs\<lparr>cr_domain_suffixes := cr_domain_suffixes rs @ [trim_start_char CHR ''*'' line]\<rparr>
      else if starts_with line ''+'' then
        rs\<lparr>cr_domain_keywords := cr_domain_keywords rs @ [trim_start_char CHR ''+'' line]\<rparr>
      else rs\<lparr>cr_domains := cr_domains rs @ [line]\<rparr>)"

definition parse_text_rules :: "string \<Rightarrow> CompiledRuleSet" where
  "parse_text_rules text = finalize (fold add_text_line (lines text) empty_rule_set)"

definition json_strings :: "Value \<Rightarrow> string \<Rightarrow> string list" where
  "json_strings rule k =
     (case get_array rule k of None \<Rightarrow> [] | Some arr \<Rightarrow> List.map_filter as_str arr)"

definition add_json_rule :: "Value \<Rightarrow> CompiledRuleSet \<Rightarrow> CompiledRuleSet" where
  "add_json_rule rule rs = rs\<lparr>
     cr_domains := cr_domains rs @ json_strings rule ''domain'',
     cr_domain_suffixes := cr_domain_suffixes rs @ json_strings rule ''domain_suffix'',
     cr_domain_keywords := cr_domain_keywords rs @ json_strings rule ''domain_keyword'',
     cr_ip_cidrs := cr_ip_cidrs rs @ json_strings rule ''ip_cidr''\<rparr>"

definition parse_json_rules :: "Value list \<Rightarrow> CompiledRuleSet res" where
  "parse_json_rules rules = Inr (finalize (fold add_json_rule rules empty_rule_set))"

definition of_srs :: "SrsCompiled \<Rightarrow> CompiledRuleSet" where
  "of_srs p = finalize \<lparr>cr_domains = srs_domains p, cr_domain_suffixes = srs_domain_suffixes p,
     cr_domain_keywords = srs_domain_keywords p, cr_ip_cidrs = srs_ip_cidrs p,
     cr_ip_ranges = srs_ip_ranges p, cr_domain_set = [], cr_suffix_set = []\<rparr>"

subsection \<open>Files and downloads\<close>

type_synonym files = "(string \<times> bytes res) list"

datatype http_result = HttpOk "bytes res" | HttpStatus string | HttpErr string

definition read_file :: "files \<Rightarrow> string \<Rightarrow> bytes res" where
  "read_file fs path = (case map_of fs path of None \<Rightarrow> Inl (Err ''No such file'') | Some r \<Rightarrow> r)"

definition read_to_string :: "files \<Rightarrow> string \<Rightarrow> string res" where
  "read_to_string fs path =
     bindR (read_file fs path) (\<lambda>bs. with_context ''stream did not contain valid UTF-8'' (from_utf8 bs))"

definition write_file :: "(string \<Rightarrow> bool) \<Rightarrow> string \<Rightarrow> bytes \<Rightarrow> files \<Rightarrow> files" where
  "write_file wr path bs fs = (if wr path then AList.update path (Inr bs) fs else fs)"

record RuleSetCache =
  rc_base :: string

definition cache_default_path :: RuleSetCache where
  "cache_default_path = \<lparr>rc_base = ''cache/rule-set''\<rparr>"

definition is_ascii_alphanumeric :: "char \<Rightarrow> bool" where
  "is_ascii_alphanumeric c \<longleftrightarrow> is_digit c \<or>
     (of_char c \<ge> (65 :: nat) \<and> of_char c \<le> (90 :: nat)) \<or> (of_char c \<ge> (97 :: nat) \<and> of_char c \<le> (122 :: nat))"

definition sanitize_tag :: "string \<Rightarrow> string" where
  "sanitize_tag tag =
     (let out = map (\<lambda>(ch, _). case str_of_bytes ch of
            [c] \<Rightarrow> if is_ascii_alphanumeric c \<or> c = CHR ''-'' \<or> c = CHR ''_'' then c else CHR ''_''
          | _ \<Rightarrow> CHR ''_'') (utf8_chunks (as_bytes tag)) in
      if out = [] then ''ruleset'' else out)"

text \<open>\<^verbatim>\<open>PathBuf::join\<close> with a relative file name.\<close>

definition path_join :: "string \<Rightarrow> string \<Rightarrow> string" where
  "path_join base name =
     (if base = [] \<or> last base = CHR ''/'' then base @ name else base @ ''/'' @ name)"

definition cache_file_path :: "RuleSetCache \<Rightarrow> string \<Rightarrow> bool \<Rightarrow> string" where
  "cache_file_path cache tag binary =
     path_join (rc_base cache) (sanitize_tag tag @ ''.'' @ (if binary then ''srs'' else ''txt''))"

fun cache_fetch ::
    "(string \<Rightarrow> bool) \<Rightarrow> (string \<Rightarrow> http_result) \<Rightarrow> string \<Rightarrow> error \<Rightarrow> string list \<Rightarrow> files \<Rightarrow> bytes res \<times> files" where
  "cache_fetch wr http path last_err [] fs = (Inl last_err, fs)"
| "cache_fetch wr http path last_err (url # urls) fs =
     (case http url of
        HttpOk (Inr bs) \<Rightarrow> (Inr bs, write_file wr path bs fs)
      | HttpOk (Inl _) \<Rightarrow> cache_fetch wr http path (Err (''read rule-set body `'' @ url @ ''`'')) urls fs
      | HttpStatus st \<Rightarrow> cache_fetch wr http path (Err (''fetch rule-set `'' @ url @ ''` status '' @ st)) urls fs
      | HttpErr _ \<Rightarrow> cache_fetch wr http path (Err (''fetch rule-set `'' @ url @ ''`'')) urls fs)"

definition read_or_fetch_urls ::
    "(string \<Rightarrow> bool) \<Rightarrow> (string \<Rightarrow> http_result) \<Rightarrow> RuleSetCache \<Rightarrow> string \<Rightarrow> string list \<Rightarrow> bool \<Rightarrow> files \<Rightarrow>
     bytes res \<times> files" where
  "read_or_fetch_urls wr http cache tag urls binary fs =
     (if urls = [] then (Inl (Err (''no rule-set urls for `'' @ tag @ ''`'')), fs)
      else
        let path = cache_file_path cache tag binary;
            fetch = cache_fetch wr http path (Err (''fetch rule-set `'' @ tag @ ''` failed'')) urls fs in
        case map_of fs path of
          Some (Inr bs) \<Rightarrow> if length bs \<ge> 64 then (Inr bs, fs) else fetch
        | _ \<Rightarrow> fetch)"

definition read_or_fetch ::
    "(string \<Rightarrow> bool) \<Rightarrow> (string \<Rightarrow> http_result) \<Rightarrow> RuleSetCache \<Rightarrow> string \<Rightarrow> string \<Rightarrow> bool \<Rightarrow> files \<Rightarrow> bytes res \<times> files" where
  "read_or_fetch wr http cache tag url binary fs = read_or_fetch_urls wr http cache tag [url] binary fs"

fun fetch_loop :: "(string \<Rightarrow> http_result) \<Rightarrow> error \<Rightarrow> string list \<Rightarrow> bytes res" where
  "fetch_loop http last_err [] = Inl last_err"
| "fetch_loop http last_err (url # urls) =
     (case http url of
        HttpOk (Inr bs) \<Rightarrow> Inr bs
      | HttpOk (Inl _) \<Rightarrow> Inl (Err (''read rule-set body `'' @ url @ ''`''))
      | HttpStatus st \<Rightarrow> fetch_loop http (Err (''fetch rule-set `'' @ url @ ''` status '' @ st)) urls
      | HttpErr _ \<Rightarrow> fetch_loop http (Err (''fetch rule-set `'' @ url @ ''`'')) urls)"

definition fetch_first_url :: "(string \<Rightarrow> http_result) \<Rightarrow> string list \<Rightarrow> bytes res" where
  "fetch_first_url http urls = fetch_loop http (Err ''no rule-set urls'') urls"

definition rule_set_urls :: "RuleSet \<Rightarrow> string list" where
  "rule_set_urls rs =
     fold (\<lambda>u urls. if u \<in> set urls then urls else urls @ [u]) (rs_urls rs)
       (case rs_url rs of Some u \<Rightarrow> [u] | None \<Rightarrow> [])"

definition fetch_rule_set ::
    "(string \<Rightarrow> bool) \<Rightarrow> (string \<Rightarrow> http_result) \<Rightarrow> string \<Rightarrow> RuleSet \<Rightarrow> RuleSetCache option \<Rightarrow> bool \<Rightarrow> files \<Rightarrow>
     bytes res \<times> files" where
  "fetch_rule_set wr http tag rs cache binary fs =
     (let urls = rule_set_urls rs in
      case cache of
        Some c \<Rightarrow> read_or_fetch_urls wr http c tag urls binary fs
      | None \<Rightarrow> (fetch_first_url http urls, fs))"

definition is_binary :: "RuleSet \<Rightarrow> bool" where
  "is_binary rs \<longleftrightarrow> rs_format rs = Some ''binary'' \<or>
     (case rs_path rs of Some p \<Rightarrow> ends_with p ''.srs'' | None \<Rightarrow> False) \<or>
     (case rs_url rs of Some u \<Rightarrow> ends_with u ''.srs'' | None \<Rightarrow> False) \<or>
     list_ex (\<lambda>u. ends_with u ''.srs'') (rs_urls rs)"

definition load_rule_set ::
    "(bytes \<Rightarrow> SrsCompiled res) \<Rightarrow> (string \<Rightarrow> bool) \<Rightarrow> (string \<Rightarrow> http_result) \<Rightarrow> string \<Rightarrow> RuleSet \<Rightarrow>
     RuleSetCache option \<Rightarrow> files \<Rightarrow> CompiledRuleSet res \<times> files" where
  "load_rule_set parse_bin wr http tag rs cache fs =
     (let remote = (rs_url rs \<noteq> None \<or> rs_urls rs \<noteq> []) in
      if is_binary rs then
        let (bs, fs) = (case rs_path rs of
              Some path \<Rightarrow> (read_file fs path, fs)
            | None \<Rightarrow> if remote then fetch_rule_set wr http tag rs cache True fs
                else (Inl (Err ''binary rule-set requires path or url''), fs)) in
        (bindR bs (\<lambda>bs. bindR (parse_bin bs) (\<lambda>p. Inr (of_srs p))), fs)
      else
        case rs_path rs of
          Some path \<Rightarrow> (bindR (read_to_string fs path) (\<lambda>t. Inr (parse_text_rules t)), fs)
        | None \<Rightarrow>
            if remote then
              let (bs, fs) = fetch_rule_set wr http tag rs cache False fs in
              (bindR bs (\<lambda>bs. bindR (with_context ''rule-set is not valid utf-8'' (from_utf8 bs))
                (\<lambda>t. Inr (parse_text_rules t))), fs)
            else
              (case get_array (rs_raw rs) ''rules'' of
                 Some inline \<Rightarrow> (parse_json_rules inline, fs)
               | None \<Rightarrow> (Inl (Err ''rule-set requires path, url, or inline rules''), fs)))"

definition load_local_rule_set :: "files \<Rightarrow> string \<Rightarrow> CompiledRuleSet res" where
  "load_local_rule_set fs path = bindR (read_to_string fs path) (\<lambda>t. Inr (parse_text_rules t))"


section \<open>Address ranges of a binary rule set\<close>

lemma finalize_ips [simp]:
  "cr_ip_cidrs (finalize rs) = cr_ip_cidrs rs" "cr_ip_ranges (finalize rs) = cr_ip_ranges rs"
  "cr_domain_keywords (finalize rs) = cr_domain_keywords rs"
  by (simp_all add: finalize_def)

lemma host_cidr:
  assumes "CHR ''/'' \<notin> set net" "parse_ip net = Some n"
  shows "ip_in_cidr ip (net @ ''/32'') \<longleftrightarrow>
      (case (ip, n) of (V4 a, V4 b) \<Rightarrow> a = b | (V6 a, V6 b) \<Rightarrow> a AND cidr_mask 32 = b AND cidr_mask 32 | _ \<Rightarrow> False)"
    and "ip_in_cidr ip (net @ ''/128'') \<longleftrightarrow> ip = n"
proof -
  have "parse_uint 255 ''32'' = Some 32" "parse_uint 255 ''128'' = Some 128" by code_simp+
  then show "ip_in_cidr ip (net @ ''/32'') \<longleftrightarrow>
      (case (ip, n) of (V4 a, V4 b) \<Rightarrow> a = b | (V6 a, V6 b) \<Rightarrow> a AND cidr_mask 32 = b AND cidr_mask 32 | _ \<Rightarrow> False)"
    and "ip_in_cidr ip (net @ ''/128'') \<longleftrightarrow> ip = n"
    using assms split_once_append [OF assms(1), of "''32''"] split_once_append [OF assms(1), of "''128''"]
    by (simp_all add: ip_in_cidr_def cidr_mask_def split: IpAddr.splits)
qed

lemma geoip_of_srs:
  "geoip_rule_set_matches (of_srs p) ip \<longleftrightarrow>
     list_ex (ip_in_cidr ip) (srs_ip_cidrs p) \<or> list_ex (\<lambda>(f, t). ip_in_range ip f t) (srs_ip_ranges p)"
  by (simp add: geoip_rule_set_matches_def of_srs_def)

lemma geoip_add_range:
   "geoip_rule_set_matches (of_srs (add_range (f, t) out)) ip \<longleftrightarrow>
     geoip_rule_set_matches (of_srs out) ip \<or> ip_in_range ip f t"
proof (cases "f = t")
  case True
  show ?thesis
  proof (cases f)
    case (V4 a)
    have "ip_in_cidr ip (show_ipv4 a @ ''/32'') \<longleftrightarrow> ip_in_range ip (V4 a) (V4 a)"
      using host_cidr(1) [OF show_ip_no_slash parse_show_ip, of ip "V4 a"]
      by (auto simp: show_ip_def ip_in_range_def split: IpAddr.splits)
    with True V4 show ?thesis by (auto simp: geoip_of_srs add_range_def)
  next
    case (V6 a)
    have "ip_in_cidr ip (show_ipv6 a @ ''/128'') \<longleftrightarrow> ip_in_range ip (V6 a) (V6 a)"
      using host_cidr(2) [OF show_ip_no_slash parse_show_ip, of ip "V6 a"]
      by (auto simp: show_ip_def ip_in_range_def split: IpAddr.splits)
    with True V6 show ?thesis by (auto simp: geoip_of_srs add_range_def)
  qed
qed (auto simp: geoip_of_srs add_range_def)

lemma geoip_add_ranges:
   "geoip_rule_set_matches (of_srs (fold (add_range) rs out)) ip \<longleftrightarrow>
     geoip_rule_set_matches (of_srs out) ip \<or> list_ex (\<lambda>(f, t). ip_in_range ip f t) rs"
proof (induction rs arbitrary: out)
  case (Cons r rs)
  have "geoip_rule_set_matches (of_srs (add_range r out)) ip \<longleftrightarrow>
      geoip_rule_set_matches (of_srs out) ip \<or> (case r of (f, t) \<Rightarrow> ip_in_range ip f t)"
    by (cases r) (simp only: geoip_add_range prod.case)
  then show ?case using Cons [of "add_range r out"] by simp
qed simp

lemma add_range_other: "srs_domain_keywords (add_range r out) = srs_domain_keywords out"
  "srs_domains (add_range r out) = srs_domains out"
  "srs_domain_suffixes (add_range r out) = srs_domain_suffixes out"
  by (auto simp: add_range_def split: prod.splits IpAddr.splits)

lemma add_ranges_other: "srs_domain_keywords (fold (add_range) rs out) = srs_domain_keywords out"
  "srs_domains (fold (add_range) rs out) = srs_domains out"
  "srs_domain_suffixes (fold (add_range) rs out) = srs_domain_suffixes out"
  by (induction rs arbitrary: out) (simp_all add: add_range_other)

lemma add_rules_other:
  "srs_domain_keywords (fold (add_rule) rules out) = srs_domain_keywords out @ concat (map fst rules)"
  "srs_domains (fold (add_rule) rules out) = srs_domains out"
  "srs_domain_suffixes (fold (add_rule) rules out) = srs_domain_suffixes out"
  by (induction rules arbitrary: out) (simp_all add: add_rule_def add_ranges_other)

lemma geoip_add_rules:
   "geoip_rule_set_matches (of_srs (fold (add_rule) rules out)) ip \<longleftrightarrow>
     geoip_rule_set_matches (of_srs out) ip \<or> list_ex (\<lambda>(f, t). ip_in_range ip f t) (concat (map snd rules))"
proof (induction rules arbitrary: out)
  case (Cons rule rules)
  have "geoip_rule_set_matches (of_srs (add_rule rule out)) ip \<longleftrightarrow>
      geoip_rule_set_matches (of_srs out) ip \<or> list_ex (\<lambda>(f, t). ip_in_range ip f t) (snd rule)"
    unfolding add_rule_def geoip_add_ranges by (simp add: geoip_of_srs)
  then show ?case using Cons by simp
qed simp




section \<open>The cache of downloads\<close>

lemma cache_fetch_first:
  assumes "list_all (\<lambda>u. \<nexists>bs. http u = HttpOk (Inr bs)) us" "http url = HttpOk (Inr bs)"
  shows "cache_fetch wr http path e (us @ url # vs) fs = (Inr bs, write_file wr path bs fs)"
  using assms(1) by (induction us arbitrary: e) (auto simp: assms(2) split: http_result.splits sum.splits)



text \<open>
  A block of IPv6 addresses in a text file is taken for a domain name when it starts with a
  letter: only lines that start with a digit are recognised as blocks.
\<close>
lemma text_ipv6_block_is_domain:
  "cr_ip_cidrs (parse_text_rules ''fc00::/7'') = [] \<and> cr_domains (parse_text_rules ''fc00::/7'') = [''fc00::/7''] \<and>
   cr_ip_cidrs (parse_text_rules ''2001:db8::/32'') = [''2001:db8::/32'']"
  by code_simp

end
