(* ===== verification/First_Match.thy ===== *)
theory First_Match
  imports Main
begin

text \<open>
  Lists of rules of which the first that gives a verdict decides, with a fallback when none
  does: the contract of the router and of the DNS rules.
\<close>

locale first_match =
  fixes verdict :: "'m \<Rightarrow> 'r \<Rightarrow> 'o option"
    and fallback :: "'m \<Rightarrow> 'o"
    and run :: "'m \<Rightarrow> 'r list \<Rightarrow> 'o"
  assumes run_Nil: "run m [] = fallback m"
    and run_Cons: "run m (r # rs) = (case verdict m r of Some x \<Rightarrow> x | None \<Rightarrow> run m rs)"
begin

lemma run_find:
  "run m rs = (case find (\<lambda>r. verdict m r \<noteq> None) rs of None \<Rightarrow> fallback m | Some r \<Rightarrow> the (verdict m r))"
  by (induction rs) (auto simp: run_Nil run_Cons)

lemma run_append:
  "run m (rs @ ss) = (if list_ex (\<lambda>r. verdict m r \<noteq> None) rs then run m rs else run m ss)"
  by (induction rs) (auto simp: run_Cons split: option.splits)

lemma run_skip: "verdict m r = None \<Longrightarrow> run m (rs @ r # ss) = run m (rs @ ss)"
  by (induction rs) (simp_all add: run_Cons split: option.splits)

lemma run_fallback: "list_all (\<lambda>r. verdict m r = None) rs \<Longrightarrow> run m rs = fallback m"
  by (induction rs) (simp_all add: run_Nil run_Cons)

lemma run_same:
  assumes "\<And>r x. r \<in> set rs \<Longrightarrow> verdict m r = Some x \<Longrightarrow> x = y" "list_ex (\<lambda>r. verdict m r \<noteq> None) rs"
  shows "run m rs = y"
  using assms by (induction rs) (auto simp: run_Cons split: option.splits)

end

end
