(* ===== verification/Router.thy ===== *)
theory Router
  imports Rule_Sets First_Match
begin

text \<open>
  The router (\<^verbatim>\<open>rsb-route/src/lib.rs\<close>, \<^verbatim>\<open>geo.rs\<close>): the preset for direct connections,
  the rule sets it needs, and the choice of an outbound. A \<^verbatim>\<open>HashSet\<close> of codes and the
  \<^verbatim>\<open>HashMap\<close> of rule sets are lists. The embedded files are parameters: \<open>site_text\<close> is the
  list of domains, \<open>embedded\<close> gives the binary rule set of a tag.
\<close>

section \<open>Definitions\<close>

subsection \<open>Geographic rules\<close>

definition builtin_geoip_private_cidrs :: "string list" where
  "builtin_geoip_private_cidrs =
     [''10.0.0.0/8'', ''172.16.0.0/12'', ''192.168.0.0/16'', ''127.0.0.0/8'', ''169.254.0.0/16'',
      ''100.64.0.0/10'', ''0.0.0.0/8'', ''192.0.0.0/24'', ''192.0.2.0/24'', ''198.18.0.0/15'',
      ''198.51.100.0/24'', ''203.0.113.0/24'', ''224.0.0.0/3'', ''::1/128'', ''fc00::/7'', ''fe80::/10'']"

definition china_direct_rules :: "string \<Rightarrow> RouteRule list" where
  "china_direct_rules direct_tag =
     (let direct = Some direct_tag in
      [RouteRule_default\<lparr>rl_geoip := [''private''], rl_outbound := direct\<rparr>,
       RouteRule_default\<lparr>rl_ip_is_private := True, rl_outbound := direct\<rparr>,
       RouteRule_default\<lparr>rl_domain_suffix := [''.cn'',
         CHR ''.'' # str_of_bytes [0xE4, 0xB8, 0xAD, 0xE5, 0x9B, 0xBD], ''.xn--fiqs8s'', ''.xn--fiqz9s''],
         rl_outbound := direct\<rparr>,
       RouteRule_default\<lparr>rl_geosite := [''cn''], rl_outbound := direct\<rparr>,
       RouteRule_default\<lparr>rl_geoip := [''cn''], rl_outbound := direct\<rparr>])"

definition nonempty_or :: "string option \<Rightarrow> string \<Rightarrow> string" where
  "nonempty_or x d = (case x of Some s \<Rightarrow> if s \<noteq> [] then s else d | None \<Rightarrow> d)"

definition expand_china_direct_preset :: "RouteOptions \<Rightarrow> string \<Rightarrow> RouteOptions" where
  "expand_china_direct_preset route default_proxy_tag =
     (let preset = to_ascii_lowercase (case ro_preset route of Some p \<Rightarrow> p | None \<Rightarrow> []) in
      if preset \<noteq> ''china-direct'' \<and> preset \<noteq> ''smart'' then route
      else
        let direct = nonempty_or (ro_direct_tag route) ''direct'';
            proxy = nonempty_or (ro_proxy_tag route) default_proxy_tag;
            route = (if ro_final_tag route = None \<and> ro_final_alt route = None
                     then route\<lparr>ro_final_tag := Some proxy\<rparr> else route) in
        route\<lparr>ro_rules := ro_rules route @ china_direct_rules direct\<rparr>)"

definition geosite_urls :: "string \<Rightarrow> string list" where
  "geosite_urls c =
     [''https://cdn.jsdelivr.net/gh/SagerNet/sing-geosite@rule-set/geosite-'' @ c @ ''.srs'',
      ''https://fastly.jsdelivr.net/gh/SagerNet/sing-geosite@rule-set/geosite-'' @ c @ ''.srs'',
      ''https://raw.githubusercontent.com/SagerNet/sing-geosite/rule-set/geosite-'' @ c @ ''.srs'']"

definition geoip_urls :: "string \<Rightarrow> string list" where
  "geoip_urls c =
     [''https://cdn.jsdelivr.net/gh/SagerNet/sing-geoip@rule-set/geoip-'' @ c @ ''.srs'',
      ''https://fastly.jsdelivr.net/gh/SagerNet/sing-geoip@rule-set/geoip-'' @ c @ ''.srs'',
      ''https://raw.githubusercontent.com/SagerNet/sing-geoip/rule-set/geoip-'' @ c @ ''.srs'']"

definition remote_rule_set :: "string \<Rightarrow> string list \<Rightarrow> string \<times> RuleSet" where
  "remote_rule_set tag urls =
     (tag, RuleSet_default\<lparr>rs_tag := Some tag, rs_format := Some ''binary'', rs_url := Some (hd urls), rs_urls := urls\<rparr>)"

definition collect_remote_geo_rule_sets :: "string list \<Rightarrow> string list \<Rightarrow> (string \<times> RuleSet) list" where
  "collect_remote_geo_rule_sets geosite geoip =
     map (\<lambda>c. remote_rule_set (''geosite-'' @ c) (geosite_urls c)) geosite @
     map (\<lambda>c. remote_rule_set (''geoip-'' @ c) (geoip_urls c)) (filter (\<lambda>c. c \<noteq> ''private'') geoip)"

definition collect_geo_tags_from_rules :: "RouteRule list \<Rightarrow> string list \<times> string list" where
  "collect_geo_tags_from_rules rules =
     (remdups (concat (map rl_geosite rules)), remdups (concat (map rl_geoip rules)))"

subsection \<open>The router\<close>

record RuleRouter =
  rr_rules :: RouteOptions
  rr_default_tag :: string
  rr_rule_sets :: "(string \<times> CompiledRuleSet) list"
  rr_cache :: "RuleSetCache option"

definition router_new :: "RouteOptions \<Rightarrow> string \<Rightarrow> RuleRouter" where
  "router_new rules default_tag =
     (let rules = expand_china_direct_preset rules default_tag in
      \<lparr>rr_rules = rules, rr_default_tag = default_tag, rr_rule_sets = [],
       rr_cache = (case ro_download_path rules of
           Some (Some path) \<Rightarrow> Some \<lparr>rc_base = path\<rparr>
         | _ \<Rightarrow> Some cache_default_path)\<rparr>)"

fun load_configured ::
    "(bytes \<Rightarrow> SrsCompiled res) \<Rightarrow> (string \<Rightarrow> bool) \<Rightarrow> (string \<Rightarrow> http_result) \<Rightarrow> RuleSetCache option \<Rightarrow> nat \<Rightarrow>
     RuleSet list \<Rightarrow> (string \<times> CompiledRuleSet) list \<Rightarrow> files \<Rightarrow> (string \<times> CompiledRuleSet) list res \<times> files" where
  "load_configured parse_bin wr http cache i [] m fs = (Inr m, fs)"
| "load_configured parse_bin wr http cache i (rs # rss) m fs =
     (let tag = (case rs_tag rs of Some t \<Rightarrow> t | None \<Rightarrow> ''ruleset-'' @ show_nat i) in
      case load_rule_set parse_bin wr http tag rs cache fs of
        (Inl e, fs) \<Rightarrow> (Inl e, fs)
      | (Inr c, fs) \<Rightarrow> load_configured parse_bin wr http cache (Suc i) rss (AList.update tag c m) fs)"

fun load_geo ::
    "(bytes \<Rightarrow> SrsCompiled res) \<Rightarrow> (string \<Rightarrow> bool) \<Rightarrow> (string \<Rightarrow> http_result) \<Rightarrow> string \<Rightarrow> (string \<Rightarrow> bytes option) \<Rightarrow>
     RuleSetCache option \<Rightarrow> (string \<times> RuleSet) list \<Rightarrow> (string \<times> CompiledRuleSet) list \<Rightarrow> files \<Rightarrow>
     (string \<times> CompiledRuleSet) list res \<times> files" where
  "load_geo parse_bin wr http site_text embedded cache [] m fs = (Inr m, fs)"
| "load_geo parse_bin wr http site_text embedded cache ((tag, rs) # rss) m fs =
     (if map_of m tag \<noteq> None then load_geo parse_bin wr http site_text embedded cache rss m fs
      else if tag = ''geosite-cn'' then
        load_geo parse_bin wr http site_text embedded cache rss
          (AList.update tag (parse_text_rules site_text) m) fs
      else
        let remote = (case load_rule_set parse_bin wr http tag rs cache fs of
              (Inr c, fs) \<Rightarrow> load_geo parse_bin wr http site_text embedded cache rss (AList.update tag c m) fs
            | (Inl (Panic p), fs) \<Rightarrow> (Inl (Panic p), fs)
            | (Inl (Err _), fs) \<Rightarrow> load_geo parse_bin wr http site_text embedded cache rss m fs) in
        case embedded tag of
          None \<Rightarrow> remote
        | Some bs \<Rightarrow>
            (case parse_bin bs of
               Inr parsed \<Rightarrow>
                 load_geo parse_bin wr http site_text embedded cache rss (AList.update tag (of_srs parsed) m)
                   (case cache of
                      None \<Rightarrow> fs
                    | Some c \<Rightarrow> write_file wr (cache_file_path c tag True) bs fs)
             | Inl (Panic p) \<Rightarrow> (Inl (Panic p), fs)
             | Inl (Err _) \<Rightarrow> remote))"

definition private_rule_set :: CompiledRuleSet where
  "private_rule_set = finalize (empty_rule_set\<lparr>cr_ip_cidrs := builtin_geoip_private_cidrs\<rparr>)"

definition load_rule_sets ::
    "(bytes \<Rightarrow> SrsCompiled res) \<Rightarrow> (string \<Rightarrow> bool) \<Rightarrow> (string \<Rightarrow> http_result) \<Rightarrow> string \<Rightarrow> (string \<Rightarrow> bytes option) \<Rightarrow>
     RuleRouter \<Rightarrow> files \<Rightarrow> RuleRouter res \<times> files" where
  "load_rule_sets parse_bin wr http site_text embedded r fs =
     (case load_configured parse_bin wr http (rr_cache r) 0 (ro_rule_set (rr_rules r)) [] fs of
        (Inl e, fs) \<Rightarrow> (Inl e, fs)
      | (Inr m, fs) \<Rightarrow>
          (let (geosite, geoip) = collect_geo_tags_from_rules (ro_rules (rr_rules r)) in
           case load_geo parse_bin wr http site_text embedded (rr_cache r)
                  (collect_remote_geo_rule_sets geosite geoip) m fs of
             (Inl e, fs) \<Rightarrow> (Inl e, fs)
           | (Inr m, fs) \<Rightarrow>
               (Inr (r\<lparr>rr_rule_sets :=
                  (if ''private'' \<in> set geoip then AList.update ''geoip-private'' private_rule_set m else m)\<rparr>), fs)))"

subsection \<open>The choice of an outbound\<close>

definition rule_outbound :: "RouteRule \<Rightarrow> string option" where
  "rule_outbound rule = rl_outbound rule"

definition rule_positive_matchers_empty :: "RouteRule \<Rightarrow> bool" where
  "rule_positive_matchers_empty rule \<longleftrightarrow> \<not> rl_ip_is_private rule \<and> rl_geosite rule = [] \<and> rl_geoip rule = [] \<and>
     rl_rule_set rule = [] \<and> rl_domain rule = [] \<and> rl_domain_suffix rule = [] \<and> rl_domain_keyword rule = [] \<and>
     rl_ip_cidr rule = []"

definition rule_constraint_only_match :: "RouteRule \<Rightarrow> bool" where
  "rule_constraint_only_match rule =
     (let has_constraint = rl_protocol rule \<noteq> [] \<or> rl_process_name rule \<noteq> [] \<or> rl_process_path rule \<noteq> [] \<or>
        rl_process_path_regex rule \<noteq> [] in
      has_constraint \<and> rule_positive_matchers_empty rule)"

fun network_name :: "Network \<Rightarrow> string" where
  "network_name Tcp = ''tcp''"
| "network_name Udp = ''udp''"

fun any_set_matches :: "RuleRouter \<Rightarrow> Metadata \<Rightarrow> string list \<Rightarrow> bool" where
  "any_set_matches r md [] = False"
| "any_set_matches r md (tag # tags) =
     (case map_of (rr_rule_sets r) tag of
        Some rs \<Rightarrow> if rule_set_matches rs md then True else any_set_matches r md tags
      | None \<Rightarrow> any_set_matches r md tags)"

fun any_geoip_matches :: "RuleRouter \<Rightarrow> Metadata \<Rightarrow> string list \<Rightarrow> bool" where
  "any_geoip_matches r md [] = False"
| "any_geoip_matches r md (c # cs) =
     (case md_destination md of
        None \<Rightarrow> any_geoip_matches r md cs
      | Some dest \<Rightarrow>
          if is_unspecified (sa_ip dest) then any_geoip_matches r md cs
          else if c = ''private'' \<and> is_private_ip (sa_ip dest) then True
          else
            (case map_of (rr_rule_sets r) (''geoip-'' @ c) of
               Some rs \<Rightarrow> if geoip_rule_set_matches rs (sa_ip dest) then True else any_geoip_matches r md cs
             | None \<Rightarrow> any_geoip_matches r md cs))"

text \<open>The tests at the head of the loop that skip a rule, in their order.\<close>

definition rule_skipped ::
    "(string \<Rightarrow> string \<Rightarrow> bool option) \<Rightarrow> Metadata \<Rightarrow> RouteRule \<Rightarrow> bool" where
  "rule_skipped regex md rule \<longleftrightarrow>
     rl_inbound rule \<noteq> [] \<and> md_inbound_tag md \<notin> set (rl_inbound rule) \<or>
     rl_network rule \<noteq> [] \<and>
       \<not> list_ex (\<lambda>n. eq_ignore_ascii_case n (network_name (md_network md))) (rl_network rule) \<or>
     rl_port rule \<noteq> [] \<and>
       (case md_destination md of None \<Rightarrow> True | Some dest \<Rightarrow> \<not> port_rule_matches (rl_port rule) (sa_port dest)) \<or>
     rl_source_ip_cidr rule \<noteq> [] \<and>
       (case md_source md of None \<Rightarrow> True | Some src \<Rightarrow> \<not> list_ex (ip_in_cidr (sa_ip src)) (rl_source_ip_cidr rule)) \<or>
     rl_protocol rule \<noteq> [] \<and>
       (case md_protocol md of None \<Rightarrow> True
        | Some detected \<Rightarrow> \<not> list_ex (\<lambda>p. eq_ignore_ascii_case p detected) (rl_protocol rule)) \<or>
     rl_process_name rule \<noteq> [] \<and>
       (case md_process_name md of None \<Rightarrow> True
        | Some name \<Rightarrow> \<not> list_ex (\<lambda>n. process_name_matches n name) (rl_process_name rule)) \<or>
     rl_process_path rule \<noteq> [] \<and>
       (case md_process_path md of None \<Rightarrow> True
        | Some path \<Rightarrow> \<not> list_ex (\<lambda>p. process_path_matches p path) (rl_process_path rule)) \<or>
     rl_process_path_regex rule \<noteq> [] \<and>
       (case md_process_path md of None \<Rightarrow> True
        | Some path \<Rightarrow> \<not> list_ex (\<lambda>re. process_path_regex_matches regex re path) (rl_process_path_regex rule))"

text \<open>The body of the loop over the rules: the outbound it returns, or \<open>None\<close> to continue.\<close>

definition route_rule ::
    "(string \<Rightarrow> string \<Rightarrow> bool option) \<Rightarrow> RuleRouter \<Rightarrow> Metadata \<Rightarrow> RouteRule \<Rightarrow> string option" where
  "route_rule regex r md rule =
     (let take_it = Some (case rule_outbound rule of Some t \<Rightarrow> t | None \<Rightarrow> rr_default_tag r) in
      if rule_skipped regex md rule then None
      else if rl_ip_is_private rule then
        (case md_destination md of None \<Rightarrow> None
         | Some dest \<Rightarrow> if is_unspecified (sa_ip dest) \<or> \<not> is_private_ip (sa_ip dest) then None else take_it)
      else if rl_geosite rule \<noteq> [] \<or> rl_geoip rule \<noteq> [] then
        (if any_set_matches r md (map (\<lambda>c. ''geosite-'' @ c) (rl_geosite rule)) \<or>
            any_geoip_matches r md (rl_geoip rule) then take_it else None)
      else if rl_rule_set rule \<noteq> [] then
        (if any_set_matches r md (rl_rule_set rule) then take_it else None)
      else if (case md_domain md of None \<Rightarrow> False
         | Some domain \<Rightarrow> domain \<in> set (rl_domain rule) \<or>
             list_ex (\<lambda>s. domain_matches_suffix domain s) (rl_domain_suffix rule) \<or>
             list_ex (\<lambda>k. contains domain k) (rl_domain_keyword rule)) then take_it
      else if (case md_destination md of None \<Rightarrow> False
         | Some dest \<Rightarrow> list_ex (ip_in_cidr (sa_ip dest)) (rl_ip_cidr rule)) then take_it
      else if rule_constraint_only_match rule then take_it
      else None)"

fun route_loop ::
    "(string \<Rightarrow> string \<Rightarrow> bool option) \<Rightarrow> RuleRouter \<Rightarrow> Metadata \<Rightarrow> RouteRule list \<Rightarrow> string" where
  "route_loop regex r md [] = rr_default_tag r"
| "route_loop regex r md (rule # rules) =
     (case route_rule regex r md rule of Some tag \<Rightarrow> tag | None \<Rightarrow> route_loop regex r md rules)"

definition route :: "(string \<Rightarrow> string \<Rightarrow> bool option) \<Rightarrow> RuleRouter \<Rightarrow> Metadata \<Rightarrow> string res" where
  "route regex r md = Inr (route_loop regex r md (ro_rules (rr_rules r)))"


section \<open>The first rule that applies decides\<close>

interpretation rules: first_match "route_rule regex r" "\<lambda>md. rr_default_tag r" "route_loop regex r"
  for regex r
  by unfold_locales simp_all

text \<open>When a rule applies, stated without the order of the tests.\<close>

definition constraints_hold ::
    "(string \<Rightarrow> string \<Rightarrow> bool option) \<Rightarrow> Metadata \<Rightarrow> RouteRule \<Rightarrow> bool" where
  "constraints_hold regex md rule \<longleftrightarrow>
     (rl_inbound rule = [] \<or> md_inbound_tag md \<in> set (rl_inbound rule)) \<and>
     (rl_network rule = [] \<or> (\<exists>n\<in>set (rl_network rule). eq_ignore_ascii_case n (network_name (md_network md)))) \<and>
     (rl_port rule = [] \<or> (\<exists>dest. md_destination md = Some dest \<and> port_rule_matches (rl_port rule) (sa_port dest))) \<and>
     (rl_source_ip_cidr rule = [] \<or>
       (\<exists>src c. md_source md = Some src \<and> c \<in> set (rl_source_ip_cidr rule) \<and> ip_in_cidr (sa_ip src) c)) \<and>
     (rl_protocol rule = [] \<or>
       (\<exists>d p. md_protocol md = Some d \<and> p \<in> set (rl_protocol rule) \<and> eq_ignore_ascii_case p d)) \<and>
     (rl_process_name rule = [] \<or>
       (\<exists>n e. md_process_name md = Some n \<and> e \<in> set (rl_process_name rule) \<and> process_name_matches e n)) \<and>
     (rl_process_path rule = [] \<or>
       (\<exists>p e. md_process_path md = Some p \<and> e \<in> set (rl_process_path rule) \<and> process_path_matches e p)) \<and>
     (rl_process_path_regex rule = [] \<or>
       (\<exists>p e. md_process_path md = Some p \<and> e \<in> set (rl_process_path_regex rule) \<and> process_path_regex_matches regex e p))"

definition private_dest :: "Metadata \<Rightarrow> bool" where
  "private_dest md \<longleftrightarrow>
     (\<exists>dest. md_destination md = Some dest \<and> \<not> is_unspecified (sa_ip dest) \<and> is_private_ip (sa_ip dest))"

definition in_rule_set :: "RuleRouter \<Rightarrow> Metadata \<Rightarrow> string \<Rightarrow> bool" where
  "in_rule_set r md tag \<longleftrightarrow> (\<exists>rs. map_of (rr_rule_sets r) tag = Some rs \<and> rule_set_matches rs md)"

definition in_geoip :: "RuleRouter \<Rightarrow> Metadata \<Rightarrow> string \<Rightarrow> bool" where
  "in_geoip r md c \<longleftrightarrow> (\<exists>dest. md_destination md = Some dest \<and> \<not> is_unspecified (sa_ip dest) \<and>
     (c = ''private'' \<and> is_private_ip (sa_ip dest) \<or>
      (\<exists>rs. map_of (rr_rule_sets r) (''geoip-'' @ c) = Some rs \<and> geoip_rule_set_matches rs (sa_ip dest))))"

definition selects :: "RuleRouter \<Rightarrow> Metadata \<Rightarrow> RouteRule \<Rightarrow> bool" where
  "selects r md rule \<longleftrightarrow>
     (if rl_ip_is_private rule then private_dest md
      else if rl_geosite rule \<noteq> [] \<or> rl_geoip rule \<noteq> [] then
        (\<exists>c\<in>set (rl_geosite rule). in_rule_set r md (''geosite-'' @ c)) \<or> (\<exists>c\<in>set (rl_geoip rule). in_geoip r md c)
      else if rl_rule_set rule \<noteq> [] then (\<exists>tag\<in>set (rl_rule_set rule). in_rule_set r md tag)
      else
        (\<exists>domain. md_domain md = Some domain \<and>
           (domain \<in> set (rl_domain rule) \<or> (\<exists>s\<in>set (rl_domain_suffix rule). domain_matches_suffix domain s) \<or>
            (\<exists>k\<in>set (rl_domain_keyword rule). contains domain k))) \<or>
        (\<exists>dest. md_destination md = Some dest \<and> (\<exists>c\<in>set (rl_ip_cidr rule). ip_in_cidr (sa_ip dest) c)) \<or>
        rule_constraint_only_match rule)"

lemma any_set_matches_iff: "any_set_matches r md tags \<longleftrightarrow> (\<exists>tag\<in>set tags. in_rule_set r md tag)"
  by (induction tags) (auto simp: in_rule_set_def split: option.splits)

lemma any_geoip_matches_iff: "any_geoip_matches r md cs \<longleftrightarrow> (\<exists>c\<in>set cs. in_geoip r md c)"
proof (induction cs)
  case (Cons c cs)
  have "any_geoip_matches r md (c # cs) \<longleftrightarrow> in_geoip r md c \<or> any_geoip_matches r md cs"
    by (auto simp: in_geoip_def split: option.splits)
  then show ?case using Cons by simp
qed simp

lemma unmet_iff:
  "(xs \<noteq> [] \<and> (case m of None \<Rightarrow> True | Some y \<Rightarrow> \<not> list_ex (P y) xs)) \<longleftrightarrow>
   \<not> (xs = [] \<or> (\<exists>y x. m = Some y \<and> x \<in> set xs \<and> P y x))"
  by (auto simp: list_ex_iff split: option.splits)

lemma rule_skipped_iff: "rule_skipped regex md rule \<longleftrightarrow> \<not> constraints_hold regex md rule"
proof -
  have p: "(xs \<noteq> [] \<and> (case m of None \<Rightarrow> True | Some y \<Rightarrow> \<not> port_rule_matches xs (sa_port y))) \<longleftrightarrow>
      \<not> (xs = [] \<or> (\<exists>y. m = Some y \<and> port_rule_matches xs (sa_port y)))" for xs m
    by (auto split: option.splits)
  show ?thesis
    unfolding rule_skipped_def constraints_hold_def unmet_iff p
    by (simp only: list_ex_iff de_Morgan_conj de_Morgan_disj)
qed

lemma route_rule_eq:
  "route_rule regex r md rule =
     (if constraints_hold regex md rule \<and> selects r md rule
      then Some (case rl_outbound rule of Some t \<Rightarrow> t | None \<Rightarrow> rr_default_tag r) else None)"
proof -
  let ?t = "Some (case rl_outbound rule of Some t \<Rightarrow> t | None \<Rightarrow> rr_default_tag r)"
  consider "rule_skipped regex md rule" | "\<not> rule_skipped regex md rule" "rl_ip_is_private rule"
    | "\<not> rule_skipped regex md rule" "\<not> rl_ip_is_private rule" by blast
  then show ?thesis
  proof cases
    case 1
    then show ?thesis by (simp add: route_rule_def rule_skipped_iff Let_def)
  next
    case 2
    then show ?thesis
      by (simp add: route_rule_def rule_skipped_iff Let_def rule_outbound_def selects_def private_dest_def
          split: option.splits)
  next
    case 3
    have d: "(case md_domain md of None \<Rightarrow> False
         | Some domain \<Rightarrow> domain \<in> set (rl_domain rule) \<or>
             list_ex (\<lambda>s. domain_matches_suffix domain s) (rl_domain_suffix rule) \<or>
             list_ex (\<lambda>k. contains domain k) (rl_domain_keyword rule)) \<longleftrightarrow>
      (\<exists>domain. md_domain md = Some domain \<and>
           (domain \<in> set (rl_domain rule) \<or> (\<exists>s\<in>set (rl_domain_suffix rule). domain_matches_suffix domain s) \<or>
            (\<exists>k\<in>set (rl_domain_keyword rule). contains domain k)))"
      by (simp add: list_ex_iff split: option.splits)
    have i: "(case md_destination md of None \<Rightarrow> False
         | Some dest \<Rightarrow> list_ex (ip_in_cidr (sa_ip dest)) (rl_ip_cidr rule)) \<longleftrightarrow>
      (\<exists>dest. md_destination md = Some dest \<and> (\<exists>c\<in>set (rl_ip_cidr rule). ip_in_cidr (sa_ip dest) c))"
      by (simp add: list_ex_iff split: option.splits)
    from 3 show ?thesis
      unfolding route_rule_def selects_def d i rule_outbound_def any_set_matches_iff any_geoip_matches_iff
      by (simp only: rule_skipped_iff Let_def not_not simp_thms if_False if_True set_map bex_simps split: if_split)
        blast
  qed
qed


lemma find_cong_pred: "(\<And>x. P x = Q x) \<Longrightarrow> find P xs = find Q xs"
  by (induction xs) simp_all

text \<open>
  C2: The router refines its specification: the answer is the outbound of the first rule whose
  constraints all hold and whose selector picks the connection, the default outbound if that
  rule names none, and the default outbound if there is no such rule. It never fails.
\<close>
theorem route_first_match:
  "route regex r md =
     Inr (case find (\<lambda>rule. constraints_hold regex md rule \<and> selects r md rule) (ro_rules (rr_rules r)) of
            Some rule \<Rightarrow> (case rl_outbound rule of Some t \<Rightarrow> t | None \<Rightarrow> rr_default_tag r)
          | None \<Rightarrow> rr_default_tag r)"
proof -
  let ?P = "\<lambda>rule. constraints_hold regex md rule \<and> selects r md rule"
  have "find (\<lambda>rule. route_rule regex r md rule \<noteq> None) rules = find ?P rules" for rules
    by (rule find_cong_pred) (simp add: route_rule_eq)
  then have loop: "route_loop regex r md rules =
      (case find ?P rules of None \<Rightarrow> rr_default_tag r | Some rule \<Rightarrow> the (route_rule regex r md rule))" for rules
    unfolding rules.run_find by simp
  show ?thesis
  proof (cases "find ?P (ro_rules (rr_rules r))")
    case None
    then show ?thesis unfolding route_def loop by (simp only: option.case)
  next
    case (Some rule)
    then have "?P rule" by (simp only: find_Some_iff) blast
    then have "route_rule regex r md rule = Some (case rl_outbound rule of Some t \<Rightarrow> t | None \<Rightarrow> rr_default_tag r)"
      by (simp only: route_rule_eq simp_thms if_True)
    then show ?thesis unfolding route_def loop using Some by (simp only: option.case option.sel)
  qed
qed

text \<open>
  A rule that only restricts the inbound, the network, the port or the source address is
  dead: it can be removed anywhere in the list without changing any routing decision.
\<close>
theorem restriction_only_rule_ignored:
  assumes "rule_positive_matchers_empty rule" "rl_protocol rule = []" "rl_process_name rule = []"
    "rl_process_path rule = []" "rl_process_path_regex rule = []"
  shows "route regex (r\<lparr>rr_rules := (rr_rules r)\<lparr>ro_rules := pre @ rule # post\<rparr>\<rparr>) md =
    route regex (r\<lparr>rr_rules := (rr_rules r)\<lparr>ro_rules := pre @ post\<rparr>\<rparr>) md"
proof -
  let ?r = "\<lambda>rules. r\<lparr>rr_rules := (rr_rules r)\<lparr>ro_rules := rules\<rparr>\<rparr>"
  have d: "rr_default_tag (?r rs) = rr_default_tag r" for rs by simp
  have "selects (?r rs) md x = selects r md x" for rs x
    by (simp add: selects_def in_rule_set_def in_geoip_def)
  then have "route_rule regex (?r rs) md x = route_rule regex r md x" for rs x
    by (simp only: route_rule_eq d)
  then have same: "route_loop regex (?r rs) md xs = route_loop regex r md xs" for rs xs
    by (induction xs) (simp_all only: route_loop.simps d)
  have "route_rule regex (?r rs) md rule = None" for rs
    using assms by (auto simp: route_rule_eq selects_def rule_positive_matchers_empty_def
        rule_constraint_only_match_def)
  then have "route_loop regex (?r (pre @ rule # post)) md (pre @ rule # post) = route_loop regex (?r (pre @ rule # post)) md (pre @ post)"
    by (rule rules.run_skip)
  then show ?thesis unfolding route_def using same by simp
qed

text \<open>
  The preset for direct connections, before and after the rule sets are loaded: unless one
  of the user's own rules applies, a connection to a private address or to a domain under
  .cn leaves through the configured direct outbound.
\<close>
theorem china_direct_local:
  assumes "to_ascii_lowercase preset = ''china-direct''" "ro_preset opts = Some preset"
    "rr_rules r = rr_rules (router_new opts d)"
    "list_all (\<lambda>rule. \<not> (constraints_hold regex md rule \<and> selects r md rule)) (ro_rules opts)"
    "private_dest md \<or> (\<exists>p. md_domain md = Some (p @ ''.cn''))"
  shows "route regex r md = Inr (nonempty_or (ro_direct_tag opts) ''direct'')"
proof -
  let ?d = "nonempty_or (ro_direct_tag opts) ''direct''"
  have rules: "ro_rules (rr_rules r) = ro_rules opts @ china_direct_rules ?d"
    using assms(1-3) by (simp add: router_new_def expand_china_direct_preset_def Let_def)
  have none: "\<not> list_ex (\<lambda>rule. route_rule regex r md rule \<noteq> None) (ro_rules opts)"
    using assms(4) by (auto simp: route_rule_eq list_all_iff list_ex_iff)
  have all: "x = ?d" if "rule \<in> set (china_direct_rules ?d)" "route_rule regex r md rule = Some x" for rule x
    using that by (auto simp: china_direct_rules_def route_rule_eq Let_def split: if_splits)
  have "list_ex (\<lambda>rule. route_rule regex r md rule \<noteq> None) (china_direct_rules ?d)"
  proof (cases "private_dest md")
    case True
    then have "route_rule regex r md (RouteRule_default\<lparr>rl_ip_is_private := True, rl_outbound := Some ?d\<rparr>) \<noteq> None"
      by (simp add: route_rule_eq constraints_hold_def selects_def RouteRule_default_def)
    then show ?thesis by (simp add: china_direct_rules_def Let_def)
  next
    case False
    then obtain p where p: "md_domain md = Some (p @ ''.cn'')" using assms(5) by blast
    have "trim (strip_suffix_rule ''.cn'') = ''cn''" by code_simp
    then have "domain_matches_suffix (p @ ''.cn'') ''.cn''"
      by (simp add: domain_matches_suffix_def Let_def eq_ignore_ascii_case_def nth_append)
    then have "route_rule regex r md (china_direct_rules ?d ! 2) \<noteq> None"
      using p by (simp add: route_rule_eq constraints_hold_def selects_def RouteRule_default_def
          china_direct_rules_def Let_def)
    moreover have "china_direct_rules ?d ! 2 \<in> set (china_direct_rules ?d)"
      by (rule nth_mem) (simp add: china_direct_rules_def Let_def)
    ultimately show ?thesis by (auto simp: list_ex_iff)
  qed
  then have "route_loop regex r md (china_direct_rules ?d) = ?d" using all by (intro rules.run_same)
  then show ?thesis using none by (simp add: route_def rules rules.run_append)
qed


text \<open>A connection about which nothing is known but its destination.\<close>

definition to_dest :: "IpAddr \<Rightarrow> Metadata" where
  "to_dest ip = \<lparr>md_network = Tcp, md_source = None, md_destination = Some \<lparr>sa_ip = ip, sa_port = 443\<rparr>,
     md_domain = None, md_protocol = None, md_process_name = None, md_process_path = None,
     md_inbound_tag = [], md_inbound_type = [], md_user = None\<rparr>"

definition preset_options :: RouteOptions where
  "preset_options = \<lparr>ro_rules = [], ro_rule_set = [], ro_final_alt = None, ro_final_tag = None,
     ro_preset = Some ''China-Direct'', ro_direct_tag = None, ro_proxy_tag = None,
     ro_auto_detect_interface = False, ro_default_interface = None, ro_download_path = None\<rparr>"

theorem restriction_only_rule_ignored_witness:
  "route (\<lambda>_ _. None) ((router_new preset_options ''proxy'')\<lparr>rr_rules := (rr_rules (router_new preset_options ''proxy''))
       \<lparr>ro_rules := [] @ RouteRule_default\<lparr>rl_network := [''udp''], rl_outbound := Some ''block''\<rparr> # []\<rparr>\<rparr>) (to_dest (V4 0)) =
   route (\<lambda>_ _. None) ((router_new preset_options ''proxy'')\<lparr>rr_rules := (rr_rules (router_new preset_options ''proxy''))
       \<lparr>ro_rules := [] @ []\<rparr>\<rparr>) (to_dest (V4 0))"
  by (rule restriction_only_rule_ignored)
    (simp_all add: RouteRule_default_def rule_positive_matchers_empty_def)

theorem china_direct_local_witness:
  "route (\<lambda>_ _. None) (router_new preset_options ''proxy'') (to_dest (V4 0xC0A80101)) = Inr ''direct''"
proof -
  have "to_ascii_lowercase ''China-Direct'' = ''china-direct''" by code_simp
  moreover have "is_private_ip (V4 0xC0A80101)" "\<not> is_unspecified (V4 0xC0A80101)" by code_simp+
  ultimately show ?thesis
    using china_direct_local [of "''China-Direct''" preset_options "router_new preset_options ''proxy''" "''proxy''"
        "\<lambda>_ _. None" "to_dest (V4 0xC0A80101)"]
    by (simp add: preset_options_def private_dest_def to_dest_def nonempty_or_def)
qed

text \<open>
  The preset works without a network: with the embedded files at hand, loading succeeds
  whatever the servers answer, and the three rule sets its rules refer to are the embedded ones.
\<close>
theorem china_direct_offline:
  assumes "to_ascii_lowercase preset = ''china-direct''" "ro_preset opts = Some preset" "ro_rule_set opts = []"
    "list_all (\<lambda>rule. rl_geosite rule = [] \<and> rl_geoip rule = []) (ro_rules opts)"
    "embedded ''geoip-cn'' = Some bs" "parse_bin bs = Inr p"
  shows "\<exists>r fs'. load_rule_sets parse_bin wr http site_text embedded (router_new opts d) fs = (Inr r, fs') \<and>
    rr_rules r = rr_rules (router_new opts d) \<and>
    map_of (rr_rule_sets r) ''geosite-cn'' = Some (parse_text_rules site_text) \<and>
    map_of (rr_rule_sets r) ''geoip-cn'' = Some (of_srs p) \<and>
    map_of (rr_rule_sets r) ''geoip-private'' = Some private_rule_set"
proof -
  let ?d = "nonempty_or (ro_direct_tag opts) ''direct''"
  have r: "ro_rules (rr_rules (router_new opts d)) = ro_rules opts @ china_direct_rules ?d"
    "ro_rule_set (rr_rules (router_new opts d)) = []"
    using assms(1-3) by (simp_all add: router_new_def expand_china_direct_preset_def Let_def)
  have "concat (map rl_geosite (ro_rules opts)) = []" "concat (map rl_geoip (ro_rules opts)) = []"
    using assms(4) by (auto simp: list_all_iff)
  then have tags: "collect_geo_tags_from_rules (ro_rules opts @ china_direct_rules ?d) = ([''cn''], [''private'', ''cn''])"
    unfolding collect_geo_tags_from_rules_def map_append concat_append
    by (simp only: append_Nil) (simp add: china_direct_rules_def RouteRule_default_def Let_def)
  have "\<exists>fs'. load_geo parse_bin wr http site_text embedded (rr_cache (router_new opts d))
      (collect_remote_geo_rule_sets [''cn''] [''private'', ''cn'']) [] fs =
      (Inr [(''geosite-cn'', parse_text_rules site_text), (''geoip-cn'', of_srs p)], fs')"
    using assms(5,6) by (simp add: collect_remote_geo_rule_sets_def remote_rule_set_def)
  then show ?thesis
    by (auto simp: load_rule_sets_def r tags update_conv')
qed

theorem china_direct_offline_witness:
  "\<exists>r fs'. load_rule_sets (\<lambda>_. Inr SrsCompiled_default) (\<lambda>_. False) (\<lambda>_. HttpErr ''offline'') ''example.cn''
      (\<lambda>_. Some []) (router_new preset_options ''proxy'') [] = (Inr r, fs') \<and>
    rr_rules r = rr_rules (router_new preset_options ''proxy'') \<and>
    map_of (rr_rule_sets r) ''geosite-cn'' = Some (parse_text_rules ''example.cn'') \<and>
    map_of (rr_rule_sets r) ''geoip-cn'' = Some (of_srs SrsCompiled_default) \<and>
    map_of (rr_rule_sets r) ''geoip-private'' = Some private_rule_set"
proof -
  have "to_ascii_lowercase ''China-Direct'' = ''china-direct''" by code_simp
  then show ?thesis
    by (intro china_direct_offline) (simp_all add: preset_options_def)
qed

end
