(* ===== verification/Dns_Wire.thy ===== *)
theory Dns_Wire
  imports Rust_Net Wire_Codec
begin

text \<open>
  The DNS messages of \<^verbatim>\<open>rsb-dns/src/lib.rs\<close>: the query for a host, the reading of a
  response and the response the DNS inbound sends. Offsets are positions in the buffer, as in
  the code; a slice or an index out of range is a panic.
\<close>

section \<open>Definitions\<close>

definition build_query :: "string \<Rightarrow> bool \<Rightarrow> bytes" where
  "build_query host ipv6 =
     [0x12, 0x34, 1, 0, 0, 1, 0, 0, 0, 0, 0, 0] @
     concat (map (\<lambda>label. of_nat (length label) # as_bytes label)
       (filter (\<lambda>label. label \<noteq> []) (split_char CHR ''.'' host))) @
     [0] @ (if ipv6 then [0, 28] else [0, 1]) @ [0, 1]"

function skip_name :: "bytes \<Rightarrow> nat \<Rightarrow> nat res" where
  "skip_name buf off =
     (if off \<ge> length buf then Inl (Err ''truncated dns name'')
      else
        let len = buf ! off in
        if len AND 0xC0 = 0xC0 then Inr (off + 2)
        else if len = 0 then Inr (off + 1)
        else skip_name buf (off + 1 + unat len))"
  by pat_completeness auto
termination
  by (relation "measure (\<lambda>(buf, off). length buf - off)") auto

declare skip_name.simps [simp del]

definition u16_at :: "bytes \<Rightarrow> nat \<Rightarrow> u16 res" where
  "u16_at buf i = bindR (idx buf i) (\<lambda>a. bindR (idx buf (i + 1)) (\<lambda>b. Inr (be_fold 0 [a, b])))"

definition slice :: "'a list \<Rightarrow> nat \<Rightarrow> nat \<Rightarrow> 'a list res" where
  "slice xs a b = (if a \<le> b \<and> b \<le> length xs then Inr (take (b - a) (drop a xs)) else Inl (Panic ''slice''))"

fun skip_questions :: "bytes \<Rightarrow> nat \<Rightarrow> nat \<Rightarrow> nat res" where
  "skip_questions buf 0 off = Inr off"
| "skip_questions buf (Suc n) off =
     bindR (skip_name buf off) (\<lambda>off. skip_questions buf n (off + 4))"

definition answer_addr :: "bytes \<Rightarrow> u16 \<Rightarrow> nat \<Rightarrow> nat \<Rightarrow> IpAddr list res" where
  "answer_addr buf rtype rdlen off =
     (if rtype = 1 \<and> rdlen = 4 then
        bindR (idx buf off) (\<lambda>a. bindR (idx buf (off + 1)) (\<lambda>b. bindR (idx buf (off + 2)) (\<lambda>c.
        bindR (idx buf (off + 3)) (\<lambda>d. Inr [V4 (v4_of a b c d)]))))
      else if rtype = 28 \<and> rdlen = 16 then
        bindR (slice buf off (off + 16)) (\<lambda>octets. Inr [V6 (be_fold 0 octets)])
      else Inr [])"

fun read_answers :: "bytes \<Rightarrow> nat \<Rightarrow> nat \<Rightarrow> IpAddr list \<Rightarrow> IpAddr list res" where
  "read_answers buf 0 off addrs = Inr addrs"
| "read_answers buf (Suc n) off addrs =
     bindR (skip_name buf off) (\<lambda>off.
     if off + 10 > length buf then Inr addrs
     else
       bindR (u16_at buf off) (\<lambda>rtype.
       bindR (u16_at buf (off + 8)) (\<lambda>rdlen.
       if off + 10 + unat rdlen > length buf then Inr addrs
       else
         bindR (answer_addr buf rtype (unat rdlen) (off + 10)) (\<lambda>new.
         read_answers buf n (off + 10 + unat rdlen) (addrs @ new)))))"

definition parse_response :: "bytes \<Rightarrow> IpAddr list res" where
  "parse_response buf =
     (if length buf < 12 then Inr []
      else
        bindR (u16_at buf 4) (\<lambda>qd.
        bindR (u16_at buf 6) (\<lambda>an.
        bindR (skip_questions buf (unat qd) 12) (\<lambda>off.
        read_answers buf (unat an) off []))))"

fun answer_record :: "IpAddr \<Rightarrow> bytes" where
  "answer_record (V4 a) = [0xc0, 0x0c] @ [0, 1, 0, 1, 0, 0, 0, 60, 0, 4] @ be_bytes 4 a"
| "answer_record (V6 a) = [0xc0, 0x0c] @ [0, 28, 0, 1, 0, 0, 0, 60, 0, 16] @ be_bytes 16 a"

definition build_response :: "bytes \<Rightarrow> IpAddr list \<Rightarrow> bytes res" where
  "build_response query addrs =
     (if length query < 12 then Inl (Err ''bad query'')
      else
        let out = (take 12 query)[2 := 0x81, 3 := 0x80, 6 := 0, 7 := of_nat (length addrs)] in
        Inr (out @ concat (map answer_record addrs)))"


section \<open>Reading never leaves the buffer\<close>

lemma not_panics_skip_name: "\<not> panics (skip_name buf off)"
  by (induction buf off rule: skip_name.induct) (subst skip_name.simps, simp add: Let_def)

lemma not_panics_skip_questions: "\<not> panics (skip_questions buf n off)"
  by (induction buf n off rule: skip_questions.induct) (auto simp: panics_bindR not_panics_skip_name)

lemma not_panics_u16_at: "i + 1 < length buf \<Longrightarrow> \<not> panics (u16_at buf i)"
  by (simp add: u16_at_def)

lemma not_panics_answer_addr: "off + rdlen \<le> length buf \<Longrightarrow> \<not> panics (answer_addr buf rtype rdlen off)"
  by (simp add: answer_addr_def slice_def)

lemma not_panics_read_answers: "\<not> panics (read_answers buf n off addrs)"
  by (induction n arbitrary: off addrs)
    (simp_all add: panics_bindR not_panics_skip_name not_panics_u16_at not_panics_answer_addr)

text \<open>
  No response, however malformed, makes the reader leave the buffer or run forever: it
  returns a list of addresses, empty for a message shorter than its header, or the error of a
  truncated name.
\<close>
theorem parse_response_total:
  "\<not> panics (parse_response buf)"
  unfolding parse_response_def
  by (simp add: panics_bindR not_panics_u16_at not_panics_skip_questions not_panics_read_answers)

section \<open>Names and queries\<close>

lemma skip_name_labels:
  assumes "\<And>l. l \<in> set ls \<Longrightarrow> l \<noteq> [] \<and> length l < 64"
  shows "skip_name (pre @ concat (map (\<lambda>l. of_nat (length l) # l) ls) @ 0 # rest) (length pre) =
    Inr (length pre + length (concat (map (\<lambda>l. of_nat (length l) # l) ls)) + 1)"
  using assms
proof (induction ls arbitrary: pre)
  case Nil
  then show ?case by (simp add: skip_name.simps)
next
  case (Cons l ls)
  let ?enc = "\<lambda>ls. concat (map (\<lambda>l. of_nat (length l) # l) ls)"
  have l: "l \<noteq> []" "length l < 64" using Cons.prems by simp_all
  then have u: "unat (of_nat (length l) :: u8) = length l" by (simp add: unat_of_nat)
  have "(of_nat (length l) :: u8) \<noteq> 0" using u l by (metis length_0_conv unat_0)
  moreover have "(of_nat (length l) :: u8) AND 0xC0 \<noteq> 0xC0"
  proof
    assume "(of_nat (length l) :: u8) AND 0xC0 = 0xC0"
    then have "0xC0 \<le> (of_nat (length l) :: u8)" by (metis word_and_le1 and.commute)
    then show False using l by (simp add: word_le_nat_alt u)
  qed
  ultimately have "skip_name (pre @ ?enc (l # ls) @ 0 # rest) (length pre) =
      skip_name (pre @ ?enc (l # ls) @ 0 # rest) (length pre + 1 + length l)"
    by (subst skip_name.simps) (simp add: u nth_append)
  also have "pre @ ?enc (l # ls) @ 0 # rest = (pre @ of_nat (length l) # l) @ ?enc ls @ 0 # rest" by simp
  also have "length pre + 1 + length l = length (pre @ of_nat (length l) # l :: u8 list)" by simp
  also have "skip_name ((pre @ of_nat (length l) # l) @ ?enc ls @ 0 # rest) \<dots> =
      Inr (length (pre @ of_nat (length l) # l :: u8 list) + length (?enc ls) + 1)"
    by (rule Cons.IH) (use Cons.prems in simp)
  finally show ?case by simp
qed


definition dns_name_ok :: "string \<Rightarrow> bool" where
  "dns_name_ok host \<longleftrightarrow> list_all (\<lambda>l. length l < 64) (split_char CHR ''.'' host)"

lemma query_question:
  assumes "dns_name_ok host"
  shows "skip_name (build_query host v6) 12 = Inr (length (build_query host v6) - 4)"
proof -
  let ?ls = "map as_bytes (filter (\<lambda>l. l \<noteq> []) (split_char CHR ''.'' host))"
  let ?hdr = "[0x12, 0x34, 1, 0, 0, 1, 0, 0, 0, 0, 0, 0] :: u8 list"
  have q: "build_query host v6 = ?hdr @ concat (map (\<lambda>l. of_nat (length l) # l) ?ls) @
      0 # (if v6 then [0, 28] else [0, 1]) @ [0, 1]"
    by (simp add: build_query_def o_def)
  have "l \<noteq> [] \<and> length l < 64" if "l \<in> set ?ls" for l
    using that assms by (auto simp: dns_name_ok_def list_all_iff as_bytes_def)
  then have "skip_name (build_query host v6) (length ?hdr) =
      Inr (length ?hdr + length (concat (map (\<lambda>l. of_nat (length l) # l :: u8 list) ?ls)) + 1)"
    unfolding q by (rule skip_name_labels)
  moreover have "length (build_query host v6) - 4 =
      length ?hdr + length (concat (map (\<lambda>l. of_nat (length l) # l :: u8 list) ?ls)) + 1"
    unfolding q by simp
  moreover have "length ?hdr = 12" by simp
  ultimately show ?thesis by metis
qed

section \<open>Answers\<close>

lemma idx_append: "idx (pre @ xs) (length pre + k) = idx xs k"
  by (simp add: idx_def)

lemma u16_at_append: "u16_at (pre @ xs) (length pre + k) = u16_at xs k"
proof -
  have "idx (pre @ xs) (length pre + k + 1) = idx xs (k + 1)" using idx_append [of pre xs "k + 1"] by (simp add: add.assoc)
  then show ?thesis by (simp add: u16_at_def idx_append)
qed

lemma slice_append: "slice (pre @ xs) (length pre + a) (length pre + b) = slice xs a b"
  by (simp add: slice_def)

lemma skip_name_pointer: "skip_name (pre @ 0xc0 # xs) (length pre) = Inr (length pre + 2)"
  by (simp add: skip_name.simps)

lemma be_fold_4: "v4_of (ucast (drop_bit 24 a)) (ucast (drop_bit 16 a)) (ucast (drop_bit 8 a)) (ucast a) = a"
proof -
  have "v4_of (ucast (drop_bit 24 a)) (ucast (drop_bit 16 a)) (ucast (drop_bit 8 a)) (ucast a) = be_fold 0 (be_bytes 4 a)"
    by (simp add: v4_of_def)
  then show ?thesis by (simp only: be_fold_be_bytes) (simp add: take_bit_all)
qed

lemma be_fold_16: "be_fold 0 (be_bytes 16 (a :: u128)) = a"
  by (simp only: be_fold_be_bytes) (simp add: take_bit_all)

lemma read_answers_step:
  assumes "skip_name buf off = Inr o1" "u16_at buf o1 = Inr rtype" "u16_at buf (o1 + 8) = Inr rdlen"
    "o1 + 10 + unat rdlen \<le> length buf" "answer_addr buf rtype (unat rdlen) (o1 + 10) = Inr new"
  shows "read_answers buf (Suc n) off addrs = read_answers buf n (o1 + 10 + unat rdlen) (addrs @ new)"
  using assms by simp

lemma read_answer_record:
  "read_answers (pre @ answer_record ip @ rest) (Suc n) (length pre) addrs =
   read_answers (pre @ answer_record ip @ rest) n (length pre + length (answer_record ip)) (addrs @ [ip])"
proof (cases ip)
  case (V4 a)
  let ?buf = "pre @ answer_record ip @ rest"
  have sk: "skip_name ?buf (length pre) = Inr (length pre + 2)"
    unfolding V4 answer_record.simps append.simps append_assoc by (rule skip_name_pointer)
  have f: "u16_at ?buf (length pre + 2) = Inr 1" "u16_at ?buf (length pre + 10) = Inr 4"
    unfolding u16_at_append by (simp_all add: V4 u16_at_def idx_def)
  have "answer_addr ?buf 1 4 (length pre + 12) = Inr [ip]"
    unfolding answer_addr_def add.assoc idx_append by (simp add: V4 idx_def be_fold_4)
  then have "read_answers ?buf (Suc n) (length pre) addrs =
      read_answers ?buf n (length pre + 2 + 10 + unat (4 :: u16)) (addrs @ [ip])"
    using sk f by (intro read_answers_step) (simp_all only: add.assoc, simp_all add: V4)
  moreover have "length pre + 2 + 10 + unat (4 :: u16) = length pre + length (answer_record ip)" by (simp add: V4)
  ultimately show ?thesis by (simp only:)
next
  case (V6 a)
  let ?buf = "pre @ answer_record ip @ rest"
  have sk: "skip_name ?buf (length pre) = Inr (length pre + 2)"
    unfolding V6 answer_record.simps append.simps append_assoc by (rule skip_name_pointer)
  have f: "u16_at ?buf (length pre + 2) = Inr 28" "u16_at ?buf (length pre + 10) = Inr 16"
    unfolding u16_at_append by (simp_all add: V6 u16_at_def idx_def del: be_bytes_numeral)
  have "answer_addr ?buf 28 16 (length pre + 12) = Inr [ip]"
    unfolding answer_addr_def add.assoc slice_append by (simp add: V6 slice_def be_fold_16 del: be_bytes_numeral)
  then have "read_answers ?buf (Suc n) (length pre) addrs =
      read_answers ?buf n (length pre + 2 + 10 + unat (16 :: u16)) (addrs @ [ip])"
    using sk f by (intro read_answers_step) (simp_all only: add.assoc, simp_all add: V6 del: be_bytes_numeral)
  moreover have "length pre + 2 + 10 + unat (16 :: u16) = length pre + length (answer_record ip)" by (simp add: V6)
  ultimately show ?thesis by (simp only:)
qed

lemma read_answer_records:
  "read_answers (pre @ concat (map answer_record ips)) (length ips) (length pre) addrs = Inr (addrs @ ips)"
proof (induction ips arbitrary: pre addrs)
  case (Cons ip ips)
  have "read_answers (pre @ concat (map answer_record (ip # ips))) (length (ip # ips)) (length pre) addrs =
      read_answers (pre @ answer_record ip @ concat (map answer_record ips)) (length ips)
        (length pre + length (answer_record ip)) (addrs @ [ip])"
    unfolding list.map concat.simps list.size One_nat_def add_Suc_right add_0_right by (rule read_answer_record)
  also have "\<dots> = read_answers ((pre @ answer_record ip) @ concat (map answer_record ips)) (length ips)
      (length (pre @ answer_record ip)) (addrs @ [ip])" by simp
  also have "\<dots> = Inr ((addrs @ [ip]) @ ips)" by (rule Cons)
  finally show ?case by simp
qed simp


text \<open>
  The answers the server writes are read back in order, for up to 255 addresses of both
  families, when the header of the query announces no question.
\<close>
theorem dns_answers_roundtrip:
  assumes "length query \<ge> 12" "query ! 4 = 0" "query ! 5 = 0" "length ips < 256"
  shows "\<exists>out. build_response query ips = Inr out \<and> parse_response out = Inr ips"
proof -
  let ?hdr = "(take 12 query)[2 := 0x81, 3 := 0x80, 6 := 0, 7 := of_nat (length ips)]"
  have l: "length ?hdr = 12" using assms(1) by simp
  have an: "unat (of_nat (length ips) :: u8) = length ips" using assms(4) by (simp add: unat_of_nat)
  have h: "idx (?hdr @ xs) 4 = Inr 0" "idx (?hdr @ xs) 5 = Inr 0" "idx (?hdr @ xs) 6 = Inr 0"
    "idx (?hdr @ xs) 7 = Inr (of_nat (length ips))" for xs
    using assms l by (simp_all add: idx_def nth_append)
  have c: "unat (ucast (of_nat (length ips) :: u8) :: u16) = length ips"
    using an assms(4) by (simp add: unsigned_ucast_eq take_bit_nat_eq_self_iff)
  have "parse_response (?hdr @ concat (map answer_record ips)) = Inr ips"
    using read_answer_records [of ?hdr ips "[]"] l c h
    by (simp add: parse_response_def u16_at_def)
  then show ?thesis using assms(1) by (simp add: build_response_def Let_def)
qed

theorem dns_answers_roundtrip_witness:
  "\<exists>out. build_response (replicate 12 0) [V4 0x08080808, V6 1] = Inr out \<and>
     parse_response out = Inr [V4 0x08080808, V6 1]"
  by (rule dns_answers_roundtrip) simp_all

text \<open>
  The question of a query ends exactly where the message ends, so any resolver reads it; but
  the response to such a query keeps the count of one question and leaves the question out, so
  the single address it carries is read as the question and lost.
\<close>
theorem dns_response_omits_question:
  assumes "dns_name_ok host"
  shows "skip_questions (build_query host v6) 1 12 = Inr (length (build_query host v6)) \<and>
    (\<exists>out. build_response (build_query host v6) [V4 a] = Inr out \<and> parse_response out = Inr [])"
proof
  have len: "length (build_query host v6) \<ge> 17" by (simp add: build_query_def)
  then show "skip_questions (build_query host v6) 1 12 = Inr (length (build_query host v6))"
    using query_question [OF assms, of v6] by simp
  let ?hdr = "[0x12, 0x34, 0x81, 0x80, 0, 1, 0, 1, 0, 0, 0, 0] :: u8 list"
  have b: "build_response (build_query host v6) [V4 a] = Inr (?hdr @ answer_record (V4 a))"
    by (simp add: build_response_def build_query_def Let_def)
  have q: "skip_questions (?hdr @ answer_record (V4 a)) 1 12 = Inr 18"
    by (simp add: skip_name.simps)
  have "skip_name (?hdr @ answer_record (V4 a)) 18 = Inr 19" by (simp add: skip_name.simps)
  then have "read_answers (?hdr @ answer_record (V4 a)) 1 18 [] = Inr []" by simp
  then have "parse_response (?hdr @ answer_record (V4 a)) = Inr []"
    using q by (simp add: parse_response_def u16_at_def idx_def)
  then show "\<exists>out. build_response (build_query host v6) [V4 a] = Inr out \<and> parse_response out = Inr []"
    using b by blast
qed

theorem dns_response_omits_question_witness:
  "skip_questions (build_query ''example.com'' False) 1 12 = Inr (length (build_query ''example.com'' False)) \<and>
    (\<exists>out. build_response (build_query ''example.com'' False) [V4 0x01020304] = Inr out \<and> parse_response out = Inr [])"
proof -
  have "dns_name_ok ''example.com''" by code_simp
  then show ?thesis by (rule dns_response_omits_question)
qed

text \<open>
  A label of 256 bytes or more is written with the wrong length, and one of 192 bytes or more is
  read as a pointer: the query is then not the one for the host.
\<close>
lemma build_query_long_label:
  "build_query (replicate 256 CHR ''a'') False ! 12 = 0"
  "skip_name (build_query (replicate 192 CHR ''a'') False) 12 = Inr 14"
proof -
  have s: "split_char CHR ''.'' (replicate n CHR ''a'') = [replicate n CHR ''a'']" for n
    by (rule split_char_no_sep) simp
  show "build_query (replicate 256 CHR ''a'') False ! 12 = 0" by (simp add: build_query_def s)
  show "skip_name (build_query (replicate 192 CHR ''a'') False) 12 = Inr 14"
    by (subst skip_name.simps) (simp add: build_query_def s)
qed

end
