(* ===== verification/Fake_Ip.thy ===== *)
theory Fake_Ip
  imports Route_Match "HOL-Library.AList"
begin

text \<open>
  The pool of fake addresses (\<^verbatim>\<open>rsb-dns/src/fake_ip.rs\<close>). The contents of the two mutexes are
  fields of the pool.
\<close>

section \<open>Definitions\<close>

record FakeIpPool =
  fp_base :: u32
  fp_mask :: u32
  fp_next :: u32
  fp_domain_map :: "(string \<times> IpAddr) list"

definition fakeip_new :: "string \<Rightarrow> FakeIpPool res" where
  "fakeip_new cidr =
     (let (net, pre) = (case split_once CHR ''/'' cidr of Some p \<Rightarrow> p | None \<Rightarrow> (cidr, ''15'')) in
      bindR (with_context ''invalid IPv4 address syntax'' (parse_ipv4 net)) (\<lambda>base.
        let prefix_len = (case parse_uint 255 pre of Some n \<Rightarrow> n | None \<Rightarrow> 15) in
        Inr \<lparr>fp_base = base, fp_mask = cidr_mask prefix_len, fp_next = 1, fp_domain_map = []\<rparr>))"

definition pool_addr :: "FakeIpPool \<Rightarrow> u32 \<Rightarrow> IpAddr" where
  "pool_addr p off = V4 ((fp_base p AND fp_mask p) OR (off AND NOT (fp_mask p)))"

definition allocate :: "string \<Rightarrow> FakeIpPool \<Rightarrow> IpAddr \<times> FakeIpPool" where
  "allocate domain p =
     (case map_of (fp_domain_map p) domain of
        Some ip \<Rightarrow> (ip, p)
      | None \<Rightarrow>
          (let ip = pool_addr p (fp_next p) in
           (ip, p\<lparr>fp_next := fp_next p + 1, fp_domain_map := AList.update domain ip (fp_domain_map p)\<rparr>)))"


section \<open>Distinct addresses inside the block\<close>

text \<open>
  The states a pool reaches with prefix length \<open>k\<close> while fewer domains than the block has
  addresses were seen: the domains have the addresses with the numbers below the next one, each
  number once.
\<close>

definition pool_inv :: "nat \<Rightarrow> FakeIpPool \<Rightarrow> bool" where
  "pool_inv k p \<longleftrightarrow> fp_mask p = cidr_mask k \<and> 0 < k \<and> k < 32 \<and>
     unat (fp_next p) = Suc (length (fp_domain_map p)) \<and> distinct (map fst (fp_domain_map p)) \<and>
     list_all2 (\<lambda>e i. snd e = pool_addr p (of_nat (Suc i))) (fp_domain_map p) [0..<length (fp_domain_map p)]"

lemma pool_addr_upd [simp]:
  "pool_addr (p\<lparr>fp_next := n\<rparr>) = pool_addr p" "pool_addr (p\<lparr>fp_domain_map := m\<rparr>) = pool_addr p"
  by (simp_all add: pool_addr_def fun_eq_iff)

lemma and_not_cidr_mask:
  assumes "0 < k" "k < 32"
  shows "(off :: u32) AND NOT (cidr_mask k) = take_bit (32 - k) off"
  using assms by (intro bit_word_eqI) (auto simp: bit_simps cidr_mask_bit)

lemma pool_addr_inj:
  assumes "fp_mask p = cidr_mask k" "0 < k" "k < 32" "i < 2 ^ (32 - k)" "j < 2 ^ (32 - k)"
    "pool_addr p (of_nat i) = pool_addr p (of_nat j)"
  shows "i = j"
proof -
  have t: "take_bit (32 - k) (of_nat n :: u32) = of_nat n" "unat (of_nat n :: u32) = n" if "n < 2 ^ (32 - k)" for n
  proof -
    have "2 ^ (32 - k) \<le> (2 :: nat) ^ 32" by (intro power_increasing) auto
    then have "n < 2 ^ 32" using that by linarith
    then show u: "unat (of_nat n :: u32) = n" by (simp add: unat_of_nat)
    have "unat (take_bit (32 - k) (of_nat n :: u32)) = unat (of_nat n :: u32)"
      using that by (simp only: unsigned_take_bit_eq u take_bit_nat_eq_self)
    then show "take_bit (32 - k) (of_nat n :: u32) = of_nat n" by (simp only: word_unat_eq_iff)
  qed
  have off: "x AND NOT (cidr_mask k) = y AND NOT (cidr_mask k)" if "pool_addr p x = pool_addr p y" for x y
  proof -
    let ?b = "fp_base p AND cidr_mask k"
    have m: "(?b OR (z AND NOT (cidr_mask k))) AND NOT (cidr_mask k) = z AND NOT (cidr_mask k)" for z
      by (rule bit_word_eqI) (auto simp: bit_simps)
    have "?b OR (x AND NOT (cidr_mask k)) = ?b OR (y AND NOT (cidr_mask k))"
      using that by (simp only: pool_addr_def assms(1) IpAddr.inject)
    then show ?thesis using m [of x] m [of y] by argo
  qed
  from off [OF assms(6)] have "take_bit (32 - k) (of_nat i :: u32) = take_bit (32 - k) (of_nat j)"
    using assms(2,3) by (simp add: and_not_cidr_mask)
  then have "(of_nat i :: u32) = of_nat j" by (simp only: t(1) [OF assms(4)] t(1) [OF assms(5)])
  then have "unat (of_nat i :: u32) = unat (of_nat j :: u32)" by (rule arg_cong)
  then show ?thesis by (simp only: t(2) [OF assms(4)] t(2) [OF assms(5)])
qed

lemma update_new: "d \<notin> fst ` set m \<Longrightarrow> AList.update d x m = m @ [(d, x)]"
  by (induction m) auto

lemma allocate_inv:
  assumes "pool_inv k p" "Suc (length (fp_domain_map p)) < 2 ^ (32 - k)"
  shows "pool_inv k (snd (allocate domain p))"
proof (cases "map_of (fp_domain_map p) domain")
  case None
  then have "domain \<notin> fst ` set (fp_domain_map p)" by (simp add: map_of_eq_None_iff)
  moreover have "unat (fp_next p + 1) = Suc (Suc (length (fp_domain_map p)))"
  proof -
    have "2 ^ (32 - k) \<le> (2 :: nat) ^ 31" using assms(1) by (intro power_increasing) (auto simp: pool_inv_def)
    then have "unat (fp_next p) + 1 < 2 ^ 32" using assms by (simp add: pool_inv_def)
    then show ?thesis using assms(1) by (simp add: pool_inv_def unat_word_ariths)
  qed
  moreover have "fp_next p = of_nat (Suc (length (fp_domain_map p)))"
  proof -
    have "fp_next p = of_nat (unat (fp_next p))" by simp
    then show ?thesis using assms(1) by (simp only: pool_inv_def)
  qed
  ultimately show ?thesis using assms(1) None
    by (auto simp: allocate_def Let_def pool_inv_def update_new intro!: list_all2_appendI)
qed (use assms in \<open>simp add: allocate_def\<close>)


fun allocate_all :: "string list \<Rightarrow> FakeIpPool \<Rightarrow> FakeIpPool" where
  "allocate_all [] p = p"
| "allocate_all (d # ds) p = allocate_all ds (snd (allocate d p))"

lemma allocate_keeps:
  "map_of (fp_domain_map p) d = Some ip \<Longrightarrow> map_of (fp_domain_map (snd (allocate e p))) d = Some ip"
  by (auto simp: allocate_def Let_def update_conv' split: option.splits)

lemma allocate_all_keeps:
  "map_of (fp_domain_map p) d = Some ip \<Longrightarrow> map_of (fp_domain_map (allocate_all ds p)) d = Some ip"
  by (induction ds p rule: allocate_all.induct) (simp_all add: allocate_keeps)

lemma allocate_grows:
  "length (fp_domain_map p) \<le> length (fp_domain_map (snd (allocate d p))) \<and>
   length (fp_domain_map (snd (allocate d p))) \<le> Suc (length (fp_domain_map p))"
proof (cases "map_of (fp_domain_map p) d")
  case None
  then have "d \<notin> fst ` set (fp_domain_map p)" by (simp add: map_of_eq_None_iff)
  then show ?thesis using None by (simp add: allocate_def Let_def update_new)
qed (simp add: allocate_def)

lemma allocate_all_inv:
  "pool_inv k p \<Longrightarrow> Suc (length (fp_domain_map p) + length ds) \<le> 2 ^ (32 - k) \<Longrightarrow> pool_inv k (allocate_all ds p)"
proof (induction ds p rule: allocate_all.induct)
  case (2 d ds p)
  have "pool_inv k (snd (allocate d p))" using 2(2,3) by (intro allocate_inv) simp_all
  moreover have "Suc (length (fp_domain_map (snd (allocate d p))) + length ds) \<le> 2 ^ (32 - k)"
    using 2(3) allocate_grows [of p d] by simp
  ultimately show ?case using 2(1) by simp
qed simp

lemma pool_inv_inj:
  assumes "pool_inv k p" "Suc (length (fp_domain_map p)) \<le> 2 ^ (32 - k)"
    "map_of (fp_domain_map p) d = Some ip" "map_of (fp_domain_map p) e = Some ip"
  shows "d = e"
proof -
  let ?m = "fp_domain_map p"
  obtain i j where i: "i < length ?m" "?m ! i = (d, ip)" and j: "j < length ?m" "?m ! j = (e, ip)"
    using assms(3,4) by (meson in_set_conv_nth map_of_SomeD)
  have addr: "snd (?m ! n) = pool_addr p (of_nat (Suc n))" if "n < length ?m" for n
    using assms(1) that by (auto simp: pool_inv_def list_all2_conv_all_nth)
  have "pool_addr p (of_nat (Suc i)) = pool_addr p (of_nat (Suc j))"
    using addr [OF i(1)] addr [OF j(1)] i j by simp
  then have "Suc i = Suc j"
    using assms(1,2) i(1) j(1) by (intro pool_addr_inj [of p k]) (auto simp: pool_inv_def)
  then show ?thesis using i j by simp
qed



end
