(* ===== verification/Dns_Router.thy ===== *)
theory Dns_Router
  imports Dns_Wire Fake_Ip Rust_Ipv6 First_Match
begin

text \<open>
  The DNS router (\<^verbatim>\<open>rsb-dns/src/lib.rs\<close>, \<^verbatim>\<open>resolved_registry.rs\<close>): configuration of the
  servers, the choice of a server, the lookup with its cache, and the forwarding of raw
  queries. Routers can refer to each other and to themselves through the registry of resolved
  services, so they live in a store and are named by their position in it. The network is
  the parameter \<open>net\<close>: a datagram sent gives the datagram received, a connection gives for the
  bytes written the bytes read, and a request gives the body of the response. The system
  resolver is \<open>sys\<close>, the resolution of the name of a server is \<open>resolve\<close>. Times
  are in nanoseconds.
\<close>

section \<open>Definitions\<close>

datatype DnsTransport = DnsUdp SocketAddr | DnsTcp SocketAddr | DnsTls SocketAddr string
  | DnsHttps string | DnsFakeIp | DnsResolved string

record DnsServerEntry =
  se_tag :: string
  se_transport :: DnsTransport
  se_detour :: "string option"

record DnsRule =
  dr_domain_suffix :: "string list"
  dr_domain_keyword :: "string list"
  dr_server_tag :: string

record CachedLookup =
  cl_addrs :: "IpAddr list"
  cl_at :: nat

record DnsRouter =
  dn_options :: DnsOptions
  dn_servers :: "DnsServerEntry list"
  dn_rules :: "DnsRule list"
  dn_fakeip :: "FakeIpPool option"
  dn_reverse_fake :: "(IpAddr \<times> string) list"
  dn_outbounds :: bool
  dn_lookup_cache :: "(string \<times> CachedLookup) list"
  dn_lookup_inflight :: "string list"

text \<open>
  The network and the libraries the queries use: datagrams sent directly and through an
  outbound, connections likewise, TLS connections, base64, HTTP.
\<close>

record DnsNet =
  nt_udp :: "SocketAddr \<Rightarrow> bytes \<Rightarrow> bytes res"
  nt_detour_udp :: "string \<Rightarrow> SocketAddr \<Rightarrow> bytes \<Rightarrow> bytes res"
  nt_tcp :: "SocketAddr \<Rightarrow> bytes \<Rightarrow> bytes res"
  nt_detour_tcp :: "string \<Rightarrow> SocketAddr \<Rightarrow> bytes \<Rightarrow> bytes res"
  nt_tls :: "SocketAddr \<Rightarrow> string \<Rightarrow> bytes \<Rightarrow> bytes res"
  nt_base64 :: "bytes \<Rightarrow> string"
  nt_http :: "string \<Rightarrow> bytes res"

record DnsWorld =
  dw_routers :: "DnsRouter list"
  dw_registry :: "(string \<times> nat) list"

definition DNS_CACHE_TTL :: nat where "DNS_CACHE_TTL = 300 * 10 ^ 9"

subsection \<open>Configuration\<close>

definition split_host_sni :: "string \<Rightarrow> string \<times> string" where
  "split_host_sni host = (case split_once CHR ''#'' host of Some p \<Rightarrow> p | None \<Rightarrow> (host, host))"

definition resolve_server_addr ::
    "(string \<Rightarrow> SocketAddr list res) \<Rightarrow> string \<Rightarrow> u16 \<Rightarrow> SocketAddr res" where
  "resolve_server_addr resolve host default_port =
     (case parse_socket_addr host of
        Some addr \<Rightarrow> Inr addr
      | None \<Rightarrow>
          (let target = (if CHR '':'' \<in> set host then host else host @ '':'' @ show_nat (unat default_port)) in
           bindR (resolve target) (\<lambda>addrs.
           case addrs of [] \<Rightarrow> Inl (Err ''resolve dns server'') | a # _ \<Rightarrow> Inr a)))"

text \<open>\<^verbatim>\<open>trim_start_matches\<close> with a string removes it as often as it occurs at the front.\<close>

function trim_start_str :: "string \<Rightarrow> string \<Rightarrow> string" where
  "trim_start_str p s = (if p \<noteq> [] \<and> starts_with s p then trim_start_str p (drop (length p) s) else s)"
  by pat_completeness auto
termination
  by (relation "measure (\<lambda>(p, s). length s)") (auto simp: starts_with_take intro!: diff_less)

declare trim_start_str.simps [simp del]

definition parse_dns_transport :: "(string \<Rightarrow> SocketAddr list res) \<Rightarrow> string \<Rightarrow> DnsTransport res" where
  "parse_dns_transport resolve address =
     (if starts_with address ''https://'' then Inr (DnsHttps address)
      else if starts_with address ''tls://'' then
        let (server, sni) = split_host_sni (trim_start_str ''tls://'' address) in
        bindR (resolve_server_addr resolve server 853) (\<lambda>addr. Inr (DnsTls addr sni))
      else
        let host = trim_start_str ''local://'' (trim_start_str ''tcp://'' (trim_start_str ''udp://'' address)) in
        if host = ''local'' then Inr (DnsUdp \<lparr>sa_ip = V4 (v4_of 8 8 8 8), sa_port = 53\<rparr>)
        else if starts_with address ''tcp://'' then
          bindR (resolve_server_addr resolve host 53) (\<lambda>addr. Inr (DnsTcp addr))
        else
          (case parse_socket_addr host of
             Some addr \<Rightarrow> Inr (DnsUdp addr)
           | None \<Rightarrow>
               (case parse_ip host of
                  Some ip \<Rightarrow> Inr (DnsUdp \<lparr>sa_ip = ip, sa_port = 53\<rparr>)
                | None \<Rightarrow> Inl (Err (''unsupported dns server address: '' @ address)))))"

definition parse_server :: "(string \<Rightarrow> SocketAddr list res) \<Rightarrow> DnsServerCfg \<Rightarrow> nat \<Rightarrow> DnsServerEntry res" where
  "parse_server resolve raw index =
     (let tag = (case ds_tag raw of Some t \<Rightarrow> t | None \<Rightarrow> show_nat index);
          detour = (case (case ds_detour raw of Some d \<Rightarrow> Some d | None \<Rightarrow> get_str (ds_raw raw) ''detour'') of
              Some d \<Rightarrow> if d = [] then None else Some d
            | None \<Rightarrow> None);
          entry = (\<lambda>t. \<lparr>se_tag = tag, se_transport = t, se_detour = detour\<rparr>) in
      if get_str (ds_raw raw) ''type'' = Some ''resolved'' then
        Inr (entry (DnsResolved (case get_str (ds_raw raw) ''service'' of Some s \<Rightarrow> s | None \<Rightarrow> ''resolved'')))
      else if get_str (ds_raw raw) ''type'' = Some ''local'' then Inr (entry (DnsResolved ''local''))
      else
        bindR (with_context ''dns server address''
          (case ds_address raw of Some a \<Rightarrow> Some a | None \<Rightarrow> get_str (ds_raw raw) ''address'')) (\<lambda>address.
        if address = ''fakeip'' \<or> address = ''fake-ip'' then Inr (entry DnsFakeIp)
        else bindR (parse_dns_transport resolve address) (\<lambda>transport. Inr (entry transport))))"

definition json_str_list :: "Value \<Rightarrow> string \<Rightarrow> string list" where
  "json_str_list raw k = (case get_array raw k of None \<Rightarrow> [] | Some arr \<Rightarrow> List.map_filter as_str arr)"

definition parse_dns_rule :: "Value \<Rightarrow> DnsRule option" where
  "parse_dns_rule raw =
     (case get_str raw ''server'' of
        None \<Rightarrow> None
      | Some server_tag \<Rightarrow> Some \<lparr>dr_domain_suffix = json_str_list raw ''domain_suffix'',
          dr_domain_keyword = json_str_list raw ''domain_keyword'', dr_server_tag = server_tag\<rparr>)"

definition ok_part :: "'a res \<Rightarrow> 'a option" where
  "ok_part r = (case r of Inr x \<Rightarrow> Some x | Inl _ \<Rightarrow> None)"

definition new_fakeip :: "Value \<Rightarrow> FakeIpPool option" where
  "new_fakeip v =
     (let enabled = (case json_get v ''enabled'' of
            Some e \<Rightarrow> (case as_bool e of Some b \<Rightarrow> b | None \<Rightarrow> True) | None \<Rightarrow> True) in
      if \<not> enabled then None
      else ok_part (fakeip_new (case get_str v ''inet4_range'' of Some r \<Rightarrow> r | None \<Rightarrow> ''198.18.0.0/15'')))"

definition DnsOptions_default :: DnsOptions where
  "DnsOptions_default = \<lparr>do_servers = [], do_rules = [], do_final_tag = None, do_strategy = None, do_fakeip = None\<rparr>"

definition dns_router_new :: "(string \<Rightarrow> SocketAddr list res) \<Rightarrow> DnsOptions option \<Rightarrow> DnsRouter" where
  "dns_router_new resolve opts =
     (let options = (case opts of Some o' \<Rightarrow> o' | None \<Rightarrow> DnsOptions_default);
          servers = List.map_filter (\<lambda>(i, s). ok_part (parse_server resolve s i)) (enumerate 0 (do_servers options));
          fakeip = (case do_fakeip options of None \<Rightarrow> None | Some v \<Rightarrow> new_fakeip v) in
      \<lparr>dn_options = options,
       dn_servers = servers @ (if fakeip \<noteq> None
         then [\<lparr>se_tag = ''fakeip'', se_transport = DnsFakeIp, se_detour = None\<rparr>] else []),
       dn_rules = List.map_filter parse_dns_rule (do_rules options),
       dn_fakeip = fakeip, dn_reverse_fake = [], dn_outbounds = False, dn_lookup_cache = [], dn_lookup_inflight = []\<rparr>)"

subsection \<open>Registry\<close>

definition register_resolved_service :: "string \<Rightarrow> nat \<Rightarrow> DnsWorld \<Rightarrow> DnsWorld" where
  "register_resolved_service tag i w = w\<lparr>dw_registry := AList.update tag i (dw_registry w)\<rparr>"

definition unregister_resolved_service :: "string \<Rightarrow> DnsWorld \<Rightarrow> DnsWorld" where
  "unregister_resolved_service tag w = w\<lparr>dw_registry := AList.delete tag (dw_registry w)\<rparr>"

definition resolved_dns :: "DnsWorld \<Rightarrow> string \<Rightarrow> nat option" where
  "resolved_dns w tag = map_of (dw_registry w) tag"

definition set_outbounds :: "DnsRouter \<Rightarrow> DnsRouter" where
  "set_outbounds r = r\<lparr>dn_outbounds := True\<rparr>"

definition upd_router :: "nat \<Rightarrow> (DnsRouter \<Rightarrow> DnsRouter) \<Rightarrow> DnsWorld \<Rightarrow> DnsWorld" where
  "upd_router i f w = w\<lparr>dw_routers := (dw_routers w)[i := f (dw_routers w ! i)]\<rparr>"

text \<open>The part of \<^verbatim>\<open>BuildContext::from_options\<close> that makes the router of a configuration.\<close>

definition context_dns :: "(string \<Rightarrow> SocketAddr list res) \<Rightarrow> DnsOptions option \<Rightarrow> DnsWorld \<Rightarrow> nat \<times> DnsWorld" where
  "context_dns resolve opts w =
     (let i = length (dw_routers w) in
      (i, register_resolved_service ''local'' i
         (w\<lparr>dw_routers := dw_routers w @ [dns_router_new resolve opts]\<rparr>)))"

subsection \<open>Choice of a server\<close>

definition dns_domain_matches_suffix :: "string \<Rightarrow> string \<Rightarrow> bool" where
  "dns_domain_matches_suffix domain suffix =
     (let s = trim (trim_start_char CHR ''.'' (trim_start_char CHR ''*'' suffix)) in
      if s = [] then False
      else eq_ignore_ascii_case domain s \<or>
        length domain > length s \<and>
        domain ! (length domain - length s - 1) = CHR ''.'' \<and>
        eq_ignore_ascii_case (drop (length domain - length s) domain) s)"

definition dns_rule_matches :: "string \<Rightarrow> DnsRule \<Rightarrow> bool" where
  "dns_rule_matches host_l rule \<longleftrightarrow>
     list_ex (\<lambda>s. dns_domain_matches_suffix host_l s) (dr_domain_suffix rule) \<or>
     list_ex (\<lambda>k. contains host_l (to_ascii_lowercase k)) (dr_domain_keyword rule)"

definition dns_rule_server :: "DnsRouter \<Rightarrow> string \<Rightarrow> DnsRule \<Rightarrow> DnsServerEntry option option" where
  "dns_rule_server r host_l rule =
     (if dns_rule_matches host_l rule then
        (case find (\<lambda>s. se_tag s = dr_server_tag rule) (dn_servers r) of
           Some entry \<Rightarrow> Some (Some entry) | None \<Rightarrow> None)
      else None)"

definition default_server :: "DnsRouter \<Rightarrow> DnsServerEntry option" where
  "default_server r =
     (case find (\<lambda>s. do_final_tag (dn_options r) = Some (se_tag s)) (dn_servers r) of
        Some entry \<Rightarrow> Some entry
      | None \<Rightarrow> (case dn_servers r of [] \<Rightarrow> None | s # _ \<Rightarrow> Some s))"

fun pick_loop :: "DnsRouter \<Rightarrow> string \<Rightarrow> DnsRule list \<Rightarrow> DnsServerEntry option" where
  "pick_loop r host_l [] = default_server r"
| "pick_loop r host_l (rule # rules) =
     (case dns_rule_server r host_l rule of Some e \<Rightarrow> e | None \<Rightarrow> pick_loop r host_l rules)"

definition pick_server :: "DnsRouter \<Rightarrow> string \<Rightarrow> DnsServerEntry option" where
  "pick_server r host = pick_loop r (to_ascii_lowercase host) (dn_rules r)"

fun is_ipv4 :: "IpAddr \<Rightarrow> bool" where
  "is_ipv4 (V4 _) = True"
| "is_ipv4 (V6 _) = False"

definition apply_dns_strategy :: "IpAddr list \<Rightarrow> DnsOptions \<Rightarrow> IpAddr list" where
  "apply_dns_strategy addrs options =
     (let strategy = (case do_strategy options of Some s \<Rightarrow> s | None \<Rightarrow> ''prefer_ipv4'') in
      if strategy = ''ipv4_only'' \<or> strategy = ''prefer_ipv4'' then
        (let v4 = filter is_ipv4 addrs in if v4 \<noteq> [] then v4 else addrs)
      else if strategy = ''ipv6_only'' \<or> strategy = ''prefer_ipv6'' then
        (let v6 = filter (\<lambda>ip. \<not> is_ipv4 ip) addrs in if v6 \<noteq> [] then v6 else addrs)
      else addrs)"

subsection \<open>Lookup\<close>

definition candidates :: "DnsRouter \<Rightarrow> string \<Rightarrow> DnsServerEntry list" where
  "candidates r host =
     (let preferred = map_option se_tag (pick_server r host) in
      (case preferred of
         None \<Rightarrow> []
       | Some tag \<Rightarrow> (case find (\<lambda>s. se_tag s = tag) (dn_servers r) of None \<Rightarrow> [] | Some e \<Rightarrow> [e])) @
      filter (\<lambda>e. preferred \<noteq> Some (se_tag e) \<and> se_transport e \<noteq> DnsFakeIp) (dn_servers r))"

definition query_udp_raw :: "DnsNet \<Rightarrow> SocketAddr \<Rightarrow> bytes \<Rightarrow> string option \<Rightarrow> bool \<Rightarrow> bytes res" where
  "query_udp_raw net server query detour outbounds =
     (case detour of
        Some tag \<Rightarrow>
          if outbounds then nt_detour_udp net tag server query
          else Inl (Err (''dns detour `'' @ tag @ ''` set but outbounds not wired''))
      | None \<Rightarrow> nt_udp net server query)"

definition tcp_framed :: "(bytes \<Rightarrow> bytes res) \<Rightarrow> bytes \<Rightarrow> bytes res" where
  "tcp_framed stream query =
     bindR (stream (be_bytes 2 (of_nat (length query) :: u16) @ query)) (\<lambda>received.
     bindR (read_exact 2 received) (\<lambda>(len_buf, received).
     bindR (read_exact (unat (be_fold 0 len_buf :: u16)) received) (\<lambda>(buf, _). Inr buf)))"

definition query_tcp_raw :: "DnsNet \<Rightarrow> SocketAddr \<Rightarrow> bytes \<Rightarrow> string option \<Rightarrow> bool \<Rightarrow> bytes res" where
  "query_tcp_raw net server query detour outbounds =
     (case detour of
        Some tag \<Rightarrow>
          if outbounds then tcp_framed (nt_detour_tcp net tag server) query
          else Inl (Err ''dns detour set but outbounds not wired'')
      | None \<Rightarrow> tcp_framed (nt_tcp net server) query)"

definition query_dot_raw :: "DnsNet \<Rightarrow> SocketAddr \<Rightarrow> string \<Rightarrow> bytes \<Rightarrow> bytes res" where
  "query_dot_raw net server sni query = tcp_framed (nt_tls net server sni) query"

definition query_doh_raw :: "DnsNet \<Rightarrow> string \<Rightarrow> bytes \<Rightarrow> bytes res" where
  "query_doh_raw net url query = nt_http net (url @ ''?dns='' @ nt_base64 net query)"

text \<open>The message to a server and its answer; the other two transports have none.\<close>

definition query_raw :: "DnsNet \<Rightarrow> bool \<Rightarrow> DnsServerEntry \<Rightarrow> bytes \<Rightarrow> bytes res" where
  "query_raw net outbounds e query =
     (case se_transport e of
        DnsUdp addr \<Rightarrow> query_udp_raw net addr query (se_detour e) outbounds
      | DnsTcp addr \<Rightarrow> query_tcp_raw net addr query (se_detour e) outbounds
      | DnsTls addr sni \<Rightarrow> query_dot_raw net addr sni query
      | DnsHttps url \<Rightarrow> query_doh_raw net url query
      | _ \<Rightarrow> Inl (Err ''no upstream dns server available''))"

definition query_server :: "DnsNet \<Rightarrow> bool \<Rightarrow> DnsServerEntry \<Rightarrow> string \<Rightarrow> IpAddr list res" where
  "query_server net outbounds e host = bindR (query_raw net outbounds e (build_query host False)) parse_response"

text \<open>How the loop over the candidates ends.\<close>

datatype round_end = Found "IpAddr list" | SwitchTo nat | NoneLeft "string list"

fun try_candidates ::
    "DnsNet \<Rightarrow> nat \<Rightarrow> string \<Rightarrow> string list \<Rightarrow> DnsServerEntry list \<Rightarrow>
     DnsWorld \<Rightarrow> round_end \<times> DnsWorld" where
  "try_candidates net cur host attempted [] w = (NoneLeft attempted, w)"
| "try_candidates net cur host attempted (e # es) w =
     (if se_tag e \<in> set attempted then try_candidates net cur host attempted es w
      else
        let attempted = attempted @ [se_tag e]; r = dw_routers w ! cur in
        case se_transport e of
          DnsFakeIp \<Rightarrow>
            (case dn_fakeip r of
               Some pool \<Rightarrow>
                 (let (ip, pool) = allocate host pool in
                  (Found [ip], upd_router cur (\<lambda>r. r\<lparr>dn_fakeip := Some pool,
                     dn_reverse_fake := AList.update ip host (dn_reverse_fake r)\<rparr>) w))
             | None \<Rightarrow> try_candidates net cur host attempted es w)
        | DnsResolved tag \<Rightarrow>
            (case resolved_dns w tag of
               Some j \<Rightarrow> (SwitchTo j, w)
             | None \<Rightarrow> try_candidates net cur host attempted es w)
        | _ \<Rightarrow>
            (let addrs = (case query_server net (dn_outbounds r) e host of Inr v \<Rightarrow> v | Inl _ \<Rightarrow> []) in
             if addrs \<noteq> [] then (Found (apply_dns_strategy addrs (dn_options r)), w)
             else try_candidates net cur host attempted es w))"

text \<open>
  The outer loop, with the number of rounds bounded by the first argument and \<open>None\<close> if they do
  not suffice. \<open>pinned\<close> tells that the loop has switched to a registered router.
\<close>

fun lookup_rounds ::
    "nat \<Rightarrow> DnsNet \<Rightarrow> (string \<Rightarrow> IpAddr list res) \<Rightarrow> nat \<Rightarrow> nat \<Rightarrow> bool \<Rightarrow>
     string \<Rightarrow> DnsWorld \<Rightarrow> (IpAddr list res \<times> DnsWorld) option" where
  "lookup_rounds 0 net sys self cur pinned host w = None"
| "lookup_rounds (Suc n) net sys self cur pinned host w =
     (case try_candidates net cur host [] (candidates (dw_routers w ! cur) host) w of
        (Found addrs, w) \<Rightarrow> Some (Inr addrs, w)
      | (SwitchTo j, w) \<Rightarrow> lookup_rounds n net sys self j True host w
      | (NoneLeft attempted, w) \<Rightarrow>
          (if pinned \<and> attempted = [] then lookup_rounds n net sys self cur pinned host w
           else Some (bindR (sys host) (\<lambda>addrs. Inr (apply_dns_strategy addrs (dn_options (dw_routers w ! self)))), w)))"

definition lookup_uncached ::
    "nat \<Rightarrow> DnsNet \<Rightarrow> (string \<Rightarrow> IpAddr list res) \<Rightarrow> nat \<Rightarrow> string \<Rightarrow>
     DnsWorld \<Rightarrow> (IpAddr list res \<times> DnsWorld) option" where
  "lookup_uncached fuel net sys self host w = lookup_rounds fuel net sys self self False host w"

definition cache_get :: "nat \<Rightarrow> string \<Rightarrow> DnsRouter \<Rightarrow> IpAddr list option \<times> DnsRouter" where
  "cache_get now key r =
     (case map_of (dn_lookup_cache r) key of
        Some entry \<Rightarrow>
          if now - cl_at entry < DNS_CACHE_TTL \<and> cl_addrs entry \<noteq> [] then (Some (cl_addrs entry), r)
          else (None, r\<lparr>dn_lookup_cache := AList.delete key (dn_lookup_cache r)\<rparr>)
      | None \<Rightarrow> (None, r\<lparr>dn_lookup_cache := AList.delete key (dn_lookup_cache r)\<rparr>))"

definition cache_put :: "nat \<Rightarrow> string \<Rightarrow> IpAddr list \<Rightarrow> DnsRouter \<Rightarrow> DnsRouter" where
  "cache_put now key addrs r =
     r\<lparr>dn_lookup_cache := AList.update key \<lparr>cl_addrs = addrs, cl_at = now\<rparr> (dn_lookup_cache r)\<rparr>"

text \<open>
  A whole lookup by one task: \<open>t0\<close> and \<open>t1\<close> are the times of the two looks into the cache, before
  and after waiting for the gate of the host, and \<open>t2\<close> the time of the entry.
\<close>

definition lookup ::
    "nat \<Rightarrow> DnsNet \<Rightarrow> (string \<Rightarrow> IpAddr list res) \<Rightarrow> nat \<times> nat \<times> nat \<Rightarrow> nat \<Rightarrow>
     string \<Rightarrow> DnsWorld \<Rightarrow> (IpAddr list res \<times> DnsWorld) option" where
  "lookup fuel net sys ts self host w =
     (case ts of (t0, t1, t2) \<Rightarrow>
      case parse_ip host of
        Some ip \<Rightarrow> Some (Inr [ip], w)
      | None \<Rightarrow>
          (let key = to_ascii_lowercase host; (hit, r) = cache_get t0 key (dw_routers w ! self) in
           case hit of
             Some addrs \<Rightarrow> Some (Inr addrs, upd_router self (\<lambda>_. r) w)
           | None \<Rightarrow>
               (let (hit, r) = cache_get t1 key (r\<lparr>dn_lookup_inflight := List.insert key (dn_lookup_inflight r)\<rparr>);
                    w = upd_router self (\<lambda>_. r) w in
                case hit of
                  Some addrs \<Rightarrow> Some (Inr addrs, w)
                | None \<Rightarrow>
                    (case lookup_uncached fuel net sys self host w of
                       None \<Rightarrow> None
                     | Some (Inl e, w) \<Rightarrow> Some (Inl e, w)
                     | Some (Inr addrs, w) \<Rightarrow>
                         Some (Inr addrs, upd_router self (\<lambda>r.
                           (if addrs \<noteq> [] then cache_put t2 key addrs r else r)
                             \<lparr>dn_lookup_inflight := removeAll key (dn_lookup_inflight r)\<rparr>) w)))))"

definition reverse_lookup :: "DnsRouter \<Rightarrow> IpAddr \<Rightarrow> string option" where
  "reverse_lookup r ip = map_of (dn_reverse_fake r) ip"

subsection \<open>Raw exchange\<close>

fun exchange_pass :: "DnsNet \<Rightarrow> bool \<Rightarrow> bool \<Rightarrow> bytes \<Rightarrow> DnsServerEntry list \<Rightarrow> bytes res + string" where
  "exchange_pass net outbounds skip query [] = Inl (Inl (Err ''no upstream dns server available''))"
| "exchange_pass net outbounds skip query (s # ss) =
     (case se_transport s of
        DnsResolved tag \<Rightarrow> if skip then exchange_pass net outbounds skip query ss else Inr tag
      | DnsFakeIp \<Rightarrow> Inl (Inl (Err ''raw exchange not supported for fakeip server''))
      | _ \<Rightarrow>
          (case query_raw net outbounds s query of
             Inr resp \<Rightarrow> Inl (Inr resp)
           | Inl _ \<Rightarrow> exchange_pass net outbounds skip query ss))"

lemma exchange_pass_skip: "exchange_pass net outbounds True query ss \<noteq> Inr tag"
  by (induction ss) (auto split: DnsTransport.splits sum.splits)

function exchange_loop :: "DnsNet \<Rightarrow> DnsWorld \<Rightarrow> bytes \<Rightarrow> bool \<Rightarrow> nat \<Rightarrow> bytes res" where
  "exchange_loop net w query skip cur =
     (let r = dw_routers w ! cur in
      case exchange_pass net (dn_outbounds r) skip query (dn_servers r) of
        Inl result \<Rightarrow> result
      | Inr tag \<Rightarrow>
          (case resolved_dns w tag of
             None \<Rightarrow> Inl (Err (''resolved service `'' @ tag @ ''` not running''))
           | Some j \<Rightarrow> exchange_loop net w query True j))"
  by pat_completeness auto
termination
proof (relation "measure (\<lambda>(net, w, query, skip, cur). if skip then 0 else 1)")
  fix net w query skip cur r tag j
  assume "exchange_pass net (dn_outbounds r) skip query (dn_servers r) = Inr tag"
  then have "\<not> skip" by (cases skip) (simp_all add: exchange_pass_skip)
  then show "((net, w, query, True, j), net, w, query, skip, cur) \<in> measure (\<lambda>(net, w, query, skip, cur). if skip then 0 else 1)"
    by simp
qed simp

declare exchange_loop.simps [simp del]

definition exchange ::
    "DnsNet \<Rightarrow> DnsWorld \<Rightarrow> bytes \<Rightarrow> nat \<Rightarrow> bytes res" where
  "exchange net w query self = exchange_loop net w query False self"

definition exchange_upstream ::
    "DnsNet \<Rightarrow> DnsWorld \<Rightarrow> bytes \<Rightarrow> nat \<Rightarrow> bytes res" where
  "exchange_upstream net w query self = exchange_loop net w query True self"


section \<open>Host names that are no addresses\<close>

lemma parse_ip_name:
  assumes "digit_in 16 c = None" "c \<noteq> CHR '':''"
  shows "parse_ip (c # s) = None"
proof -
  have d: "digit_in 10 c = None" using assms(1) by (auto simp: digit_in_def Let_def split: if_splits)
  have n: "read_ipv4 (c # s) = None"
    using d by (simp add: read_ipv4_def read_octet_def read_separator_def read_number_def)
  then have "read_groups (Suc k) 0 (c # s) = ([], False, c # s)" for k
    using assms(1) by (simp add: read_separator_def read_number_def)
  from this [of 7] show ?thesis using n assms(2)
    by (simp add: parse_ip_def read_ipv6_def read_given_char_def whole_input_def del: read_groups.simps)
qed


section \<open>Choice of a server\<close>

interpretation dns_rules: first_match "\<lambda>host_l. dns_rule_server r host_l" "\<lambda>_. default_server r" "pick_loop r"
  for r
  by unfold_locales (simp_all split: option.splits)

lemma default_server_None: "default_server r = None \<longleftrightarrow> dn_servers r = []"
  by (auto simp: default_server_def split: option.splits list.splits)

lemma default_server_in: "default_server r = Some e \<Longrightarrow> e \<in> set (dn_servers r)"
  by (auto simp: default_server_def dest: find_SomeD split: option.splits list.splits)

lemma pick_loop_known:
  "(pick_loop r h rules = None \<longleftrightarrow> dn_servers r = []) \<and> (\<forall>e. pick_loop r h rules = Some e \<longrightarrow> e \<in> set (dn_servers r))"
proof (induction rules)
  case Nil
  then show ?case using default_server_None default_server_in by simp
next
  case (Cons rule rules)
  then show ?case
    by (cases "dns_rule_matches h rule"; cases "find (\<lambda>s. se_tag s = dr_server_tag rule) (dn_servers r)")
      (auto simp: dns_rule_server_def dest: find_SomeD)
qed

text \<open>
  The server for a host is the one the first applicable rule names: rules that do not match the
  host, and rules whose server is not configured, have no influence, and without an applicable
  rule the final server, or else the first one, is taken. There is a server whenever one is
  configured.
\<close>
theorem pick_server_first_rule:
  "pick_server r host =
     (case find (\<lambda>rule. dns_rule_matches (to_ascii_lowercase host) rule \<and>
                  dr_server_tag rule \<in> se_tag ` set (dn_servers r)) (dn_rules r) of
        Some rule \<Rightarrow> find (\<lambda>s. se_tag s = dr_server_tag rule) (dn_servers r)
      | None \<Rightarrow> default_server r) \<and>
   (pick_server r host = None \<longleftrightarrow> dn_servers r = [])"
proof
  have f: "t \<in> se_tag ` set ss \<longleftrightarrow> find (\<lambda>s. se_tag s = t) ss \<noteq> None" for t and ss :: "DnsServerEntry list"
    by (auto simp: find_None_iff)
  have v: "dns_rule_server r h rule \<noteq> None \<longleftrightarrow>
      dns_rule_matches h rule \<and> dr_server_tag rule \<in> se_tag ` set (dn_servers r)" for h rule
    unfolding f by (auto simp: dns_rule_server_def split: option.splits)
  have t: "the (dns_rule_server r h rule) = find (\<lambda>s. se_tag s = dr_server_tag rule) (dn_servers r)"
    if "dns_rule_server r h rule \<noteq> None" for h rule
    using that by (auto simp: dns_rule_server_def split: if_splits option.splits)
  show "pick_server r host =
     (case find (\<lambda>rule. dns_rule_matches (to_ascii_lowercase host) rule \<and>
                  dr_server_tag rule \<in> se_tag ` set (dn_servers r)) (dn_rules r) of
        Some rule \<Rightarrow> find (\<lambda>s. se_tag s = dr_server_tag rule) (dn_servers r)
      | None \<Rightarrow> default_server r)"
    unfolding pick_server_def dns_rules.run_find v
    by (cases "find (\<lambda>rule. dns_rule_matches (to_ascii_lowercase host) rule \<and>
        dr_server_tag rule \<in> se_tag ` set (dn_servers r)) (dn_rules r)")
      (use find_SomeD v t in \<open>force+\<close>)
  show "pick_server r host = None \<longleftrightarrow> dn_servers r = []"
    using pick_loop_known by (simp add: pick_server_def)
qed


section \<open>The cache\<close>

lemma length_upd_router [simp]: "length (dw_routers (upd_router i f w)) = length (dw_routers w)"
  by (simp add: upd_router_def)

lemma nth_upd_router [simp]:
  "i < length (dw_routers w) \<Longrightarrow> dw_routers (upd_router i f w) ! i = f (dw_routers w ! i)"
  by (simp add: upd_router_def)

lemma upd_router_nth:
  "dw_routers (upd_router i f w) ! j =
     (if i = j \<and> i < length (dw_routers w) then f (dw_routers w ! i) else dw_routers w ! j)"
  by (cases "i = j"; cases "length (dw_routers w) \<le> i") (simp_all add: upd_router_def not_le list_update_beyond)

lemma upd_router_same: "f (dw_routers w ! i) = dw_routers w ! i \<Longrightarrow> upd_router i f w = w"
  by (simp add: upd_router_def)

lemma try_candidates_length:
  "length (dw_routers (snd (try_candidates net cur host att es w))) = length (dw_routers w)"
  by (induction es arbitrary: att) (simp_all add: Let_def split: option.split prod.split DnsTransport.split)

lemma lookup_rounds_length:
  "lookup_rounds n net sys self cur pinned host w = Some (res, w') \<Longrightarrow>
     length (dw_routers w') = length (dw_routers w)"
proof (induction n net sys self cur pinned host w rule: lookup_rounds.induct)
  case (2 n net sys self cur pinned host w)
  obtain e v where e: "try_candidates net cur host [] (candidates (dw_routers w ! cur) host) w = (e, v)"
    by fastforce
  then have l: "length (dw_routers v) = length (dw_routers w)" by (metis snd_conv try_candidates_length)
  show ?case using 2 e l by (cases e) (auto split: if_splits)
qed simp

text \<open>The state in which a lookup that missed the cache starts to ask the servers.\<close>

definition missed :: "string \<Rightarrow> nat \<Rightarrow> DnsWorld \<Rightarrow> DnsWorld" where
  "missed key self = upd_router self (\<lambda>r. r\<lparr>
     dn_lookup_inflight := List.insert key (dn_lookup_inflight r),
     dn_lookup_cache := AList.delete key (AList.delete key (dn_lookup_cache r))\<rparr>)"

lemma lookup_miss:
  assumes "parse_ip host = None"
    and "fst (cache_get t0 (to_ascii_lowercase host) (dw_routers w ! self)) = None"
  shows "lookup fuel net sys (t0, t1, t2) self host w =
     (case lookup_rounds fuel net sys self self False host (missed (to_ascii_lowercase host) self w) of
        None \<Rightarrow> None
      | Some (Inl e, w) \<Rightarrow> Some (Inl e, w)
      | Some (Inr addrs, w) \<Rightarrow>
          Some (Inr addrs, upd_router self (\<lambda>r.
            (if addrs \<noteq> [] then cache_put t2 (to_ascii_lowercase host) addrs r else r)
              \<lparr>dn_lookup_inflight := removeAll (to_ascii_lowercase host) (dn_lookup_inflight r)\<rparr>) w))"
proof -
  let ?k = "to_ascii_lowercase host" and ?r = "dw_routers w ! self"
  let ?r1 = "?r\<lparr>dn_lookup_cache := AList.delete ?k (dn_lookup_cache ?r)\<rparr>"
  have g: "cache_get t0 ?k ?r = (None, ?r1)"
    using assms(2) by (auto simp: cache_get_def split: option.splits if_splits)
  have "upd_router self (\<lambda>_. f (dw_routers w ! self)) w = upd_router self f w" for f
    by (simp add: upd_router_def)
  note u = this [of "\<lambda>r. r\<lparr>
     dn_lookup_inflight := List.insert (to_ascii_lowercase host) (dn_lookup_inflight r),
     dn_lookup_cache := AList.delete (to_ascii_lowercase host) (AList.delete (to_ascii_lowercase host) (dn_lookup_cache r))\<rparr>"]
  have "cache_get t1 ?k (?r1\<lparr>dn_lookup_inflight := x\<rparr>) =
      (None, ?r\<lparr>dn_lookup_inflight := x, dn_lookup_cache := AList.delete ?k (AList.delete ?k (dn_lookup_cache ?r))\<rparr>)" for x
    by (simp add: cache_get_def delete_conv')
  then show ?thesis
    using assms(1) g u by (simp add: lookup_def lookup_uncached_def missed_def Let_def)
qed

lemma length_missed [simp]: "length (dw_routers (missed key self w)) = length (dw_routers w)"
  by (simp add: missed_def)

lemma missed_same [simp]:
  "dn_servers (dw_routers (missed key self w) ! i) = dn_servers (dw_routers w ! i)"
  "dn_rules (dw_routers (missed key self w) ! i) = dn_rules (dw_routers w ! i)"
  "dn_options (dw_routers (missed key self w) ! i) = dn_options (dw_routers w ! i)"
  "dn_outbounds (dw_routers (missed key self w) ! i) = dn_outbounds (dw_routers w ! i)"
  "dn_fakeip (dw_routers (missed key self w) ! i) = dn_fakeip (dw_routers w ! i)"
  "dw_registry (missed key self w) = dw_registry w"
  by (simp_all add: missed_def upd_router_nth) (simp add: upd_router_def)

text \<open>
  C24: A lookup that asked a server and got addresses leaves them in the cache: for the
  next 300 seconds a lookup of the host in any spelling gives the same addresses, whatever the
  network does, and changes nothing.
\<close>
theorem lookup_cached:
  assumes "lookup fuel net sys (t0, t1, t2) self host w = Some (Inr addrs, w')" "addrs \<noteq> []"
    and "self < length (dw_routers w)" "parse_ip host = None"
    and "map_of (dn_lookup_cache (dw_routers w ! self)) (to_ascii_lowercase host) = None"
    and "to_ascii_lowercase host' = to_ascii_lowercase host" "parse_ip host' = None" "t < t2 + DNS_CACHE_TTL"
  shows "lookup fuel' net' sys' (t, t1', t2') self host' w' = Some (Inr addrs, w')"
proof -
  have cg: "fst (cache_get t0 (to_ascii_lowercase host) (dw_routers w ! self)) = None"
    using assms(5) by (simp add: cache_get_def)
  obtain v where v: "length (dw_routers v) = length (dw_routers w)"
    "w' = upd_router self (\<lambda>r. (cache_put t2 (to_ascii_lowercase host) addrs r)
        \<lparr>dn_lookup_inflight := removeAll (to_ascii_lowercase host) (dn_lookup_inflight r)\<rparr>) v"
    using assms(1,2) unfolding lookup_miss [OF assms(4) cg]
    by (auto split: option.splits prod.splits sum.splits dest: lookup_rounds_length)
  have "map_of (dn_lookup_cache (dw_routers w' ! self)) (to_ascii_lowercase host) = Some \<lparr>cl_addrs = addrs, cl_at = t2\<rparr>"
    using v assms(3) by (simp add: cache_put_def update_conv')
  moreover have "t - t2 < DNS_CACHE_TTL" using assms(8) by (simp add: DNS_CACHE_TTL_def)
  ultimately show ?thesis using assms(2,6,7) by (simp add: lookup_def cache_get_def upd_router_same)
qed

theorem lookup_cached_witness:
  "\<exists>net sys w w'. lookup 1 net sys (5, 6, 7) 0 ''Xy'' w = Some (Inr [V4 1], w') \<and>
     lookup 0 net sys (8, 9, 9) 0 ''xY'' w' = Some (Inr [V4 1], w')"
proof -
  define w where "w = snd (context_dns (\<lambda>_. Inr []) None \<lparr>dw_routers = [], dw_registry = []\<rparr>)"
  define net :: DnsNet where "net = undefined"
  let ?sys = "\<lambda>_. Inr [V4 1]"
  define r where "r = dns_router_new (\<lambda>_. Inr []) None"
  have w: "dw_routers w = [r]"
    by (simp add: w_def context_dns_def register_resolved_service_def r_def)
  have r: "dn_servers r = []" "dn_rules r = []" "dn_lookup_cache r = []" "dn_options r = DnsOptions_default"
    by (simp_all add: r_def dns_router_new_def DnsOptions_default_def map_filter_simps)
  have p: "parse_ip ''Xy'' = None" "parse_ip ''xY'' = None"
    by (rule parse_ip_name; simp add: digit_in_def)+
  have k: "to_ascii_lowercase ''xY'' = to_ascii_lowercase ''Xy''" by code_simp
  have "candidates (dw_routers (missed k 0 w) ! 0) h = []" for k h
    by (simp add: candidates_def pick_server_def default_server_def w r)
  then have "lookup_rounds 1 net ?sys 0 0 False h (missed k 0 w) = Some (Inr [V4 1], missed k 0 w)" for h k
    by (simp add: w r apply_dns_strategy_def DnsOptions_default_def)
  then obtain w' where w': "lookup 1 net ?sys (5, 6, 7) 0 ''Xy'' w = Some (Inr [V4 1], w')"
    using lookup_miss [of "''Xy''" 5 w 0] p w r by (simp add: cache_get_def)
  have "lookup 0 net ?sys (8, 9, 9) 0 ''xY'' w' = Some (Inr [V4 1], w')"
    by (rule lookup_cached [OF w' _ _ p(1) _ k p(2)]) (simp_all add: w r DNS_CACHE_TTL_def)
  then show ?thesis using w' by blast
qed


section \<open>Does a lookup return?\<close>

definition is_resolved :: "DnsTransport \<Rightarrow> bool" where
  "is_resolved t \<longleftrightarrow> (case t of DnsResolved _ \<Rightarrow> True | _ \<Rightarrow> False)"

text \<open>A lookup that is with router \<open>i\<close> can be sent on to router \<open>j\<close>.\<close>

definition switches :: "DnsWorld \<Rightarrow> nat \<Rightarrow> nat \<Rightarrow> bool" where
  "switches w i j \<longleftrightarrow>
     (\<exists>e \<in> set (dn_servers (dw_routers w ! i)). \<exists>tag. se_transport e = DnsResolved tag \<and> resolved_dns w tag = Some j)"

lemma try_candidates_switch:
  "try_candidates net cur host att es w = (SwitchTo j, w') \<Longrightarrow>
     w' = w \<and> (\<exists>e \<in> set es. \<exists>tag. se_transport e = DnsResolved tag \<and> resolved_dns w tag = Some j)"
  by (induction es arbitrary: att)
    (auto simp: Let_def split: if_splits option.splits prod.splits DnsTransport.splits)

lemma try_candidates_attempted:
  "try_candidates net cur host att es w = (NoneLeft att', w') \<Longrightarrow> es \<noteq> [] \<or> att \<noteq> [] \<Longrightarrow> att' \<noteq> []"
proof (induction es arbitrary: att)
  case (Cons e es)
  have "try_candidates net cur host att (e # es) w = (NoneLeft att', w') \<Longrightarrow> 
     \<exists>a. a \<noteq> [] \<and> try_candidates net cur host a es w = (NoneLeft att', w')"
    by (cases "att = []")
      (auto simp: Let_def split: if_splits option.splits prod.splits DnsTransport.splits)
  then show ?case using Cons by blast
qed simp

lemma candidates_subset: "set (candidates r host) \<subseteq> set (dn_servers r)"
  by (auto simp: candidates_def Let_def dest: find_SomeD find_SomeD [OF sym] split: option.splits)

lemma candidates_nonempty:
  assumes "dn_servers r \<noteq> []"
  shows "candidates r host \<noteq> []"
proof -
  obtain e where e: "pick_server r host = Some e" "e \<in> set (dn_servers r)"
    using assms pick_loop_known [of r "to_ascii_lowercase host" "dn_rules r"]
    by (auto simp: pick_server_def)
  then have "find (\<lambda>s. se_tag s = se_tag e) (dn_servers r) \<noteq> None" by (auto simp: find_None_iff)
  then show ?thesis using e(1) by (auto simp: candidates_def)
qed

lemma lookup_rounds_returns:
  assumes "\<And>i j. i < length (dw_routers w) \<Longrightarrow> switches w i j \<Longrightarrow>
      j < length (dw_routers w) \<and> rank j < rank i \<and> dn_servers (dw_routers w ! j) \<noteq> []"
    and "rank cur < n" "cur < length (dw_routers w)" "pinned \<Longrightarrow> dn_servers (dw_routers w ! cur) \<noteq> []"
  shows "lookup_rounds n net sys self cur pinned host w \<noteq> None"
  using assms(2-)
proof (induction n arbitrary: cur pinned)
  case (Suc n)
  obtain e v where e: "try_candidates net cur host [] (candidates (dw_routers w ! cur) host) w = (e, v)"
    by fastforce
  show ?case
  proof (cases e)
    case (SwitchTo j)
    then have "v = w" "switches w cur j"
      using try_candidates_switch [of net cur host "[]" _ w j v] e candidates_subset
      by (auto simp: switches_def) blast
    then show ?thesis using e SwitchTo Suc assms(1) [of cur j] by simp
  next
    case (NoneLeft att)
    then have "pinned \<Longrightarrow> att \<noteq> []"
      using try_candidates_attempted e Suc.prems(3) candidates_nonempty by blast
    then show ?thesis using e NoneLeft by auto
  qed (use e in simp)
qed simp


definition chained_world :: DnsWorld where
  "chained_world =
     (let entry = (\<lambda>t. \<lparr>se_tag = ''a'', se_transport = t, se_detour = None\<rparr>);
          r = dns_router_new (\<lambda>_. Inr []) None in
      \<lparr>dw_routers = [r\<lparr>dn_servers := [entry (DnsResolved ''svc'')]\<rparr>,
         r\<lparr>dn_servers := [entry (DnsUdp \<lparr>sa_ip = V4 1, sa_port = 53\<rparr>)]\<rparr>],
       dw_registry = [(''svc'', 1)]\<rparr>)"


lemma lookup_rounds_forever:
  assumes "candidates (dw_routers w ! cur) host = e # es"
    and "se_transport e = DnsResolved tag" "resolved_dns w tag = Some cur"
  shows "lookup_rounds n net sys self cur pinned host w = None"
  using assms by (induction n arbitrary: pinned) (simp_all add: Let_def)

lemma parse_server_local:
  "get_str (ds_raw srv) ''type'' = Some ''local'' \<Longrightarrow>
     \<exists>e. parse_server resolve srv i = Inr e \<and> se_transport e = DnsResolved ''local''"
  by (simp add: parse_server_def Let_def)

lemma dns_router_new_servers:
  assumes "do_servers opts = srv # srvs" "parse_server resolve srv 0 = Inr e"
  shows "\<exists>es. dn_servers (dns_router_new resolve (Some opts)) = e # es"
  using assms by (simp add: dns_router_new_def Let_def ok_part_def map_filter_simps)

lemma candidates_first:
  assumes "dn_servers r = e # es" "dn_rules r = []" "do_final_tag (dn_options r) = None"
  shows "\<exists>cs. candidates r host = e # cs"
proof -
  have "find (\<lambda>s. False) es = None" by (simp add: find_None_iff)
  then have "pick_server r host = Some e" using assms by (simp add: pick_server_def default_server_def)
  then show ?thesis using assms(1) by (simp add: candidates_def)
qed




section \<open>The first server that answers\<close>

definition plain_transport :: "DnsTransport \<Rightarrow> bool" where
  "plain_transport t \<longleftrightarrow> t \<noteq> DnsFakeIp \<and> \<not> is_resolved t"

definition answers :: "DnsNet \<Rightarrow> DnsRouter \<Rightarrow> string \<Rightarrow> DnsServerEntry \<Rightarrow> IpAddr list" where
  "answers net r host e = (case query_server net (dn_outbounds r) e host of Inr v \<Rightarrow> v | Inl _ \<Rightarrow> [])"

lemma try_candidates_plain:
  assumes "list_all (\<lambda>e. plain_transport (se_transport e)) es" "distinct (map se_tag es)"
    "set att \<inter> se_tag ` set es = {}"
  shows "try_candidates net cur host att es w =
     (case find (\<lambda>e. answers net (dw_routers w ! cur) host e \<noteq> []) es of
        Some e \<Rightarrow> Found (apply_dns_strategy (answers net (dw_routers w ! cur) host e) (dn_options (dw_routers w ! cur)))
      | None \<Rightarrow> NoneLeft (att @ map se_tag es), w)"
  using assms
proof (induction es arbitrary: att)
  case (Cons e es)
  then have n: "se_tag e \<notin> set att" "set (att @ [se_tag e]) \<inter> se_tag ` set es = {}" by auto
  have step: "try_candidates net cur host att (e # es) w =
      (if answers net (dw_routers w ! cur) host e \<noteq> []
       then (Found (apply_dns_strategy (answers net (dw_routers w ! cur) host e) (dn_options (dw_routers w ! cur))), w)
       else try_candidates net cur host (att @ [se_tag e]) es w)"
    using n(1) Cons.prems(1)
    by (cases "se_transport e") (auto simp: plain_transport_def is_resolved_def answers_def Let_def)
  show ?case unfolding step using Cons.IH [OF _ _ n(2)] Cons.prems(1,2)
    by (cases "answers net (dw_routers w ! cur) host e") (simp_all split: option.split)
qed simp

lemma candidates_cong:
  assumes "dn_servers r = dn_servers r'" "dn_rules r = dn_rules r'" "dn_options r = dn_options r'"
  shows "candidates r host = candidates r' host"
proof -
  have "default_server r = default_server r'" "dns_rule_server r = dns_rule_server r'"
    unfolding default_server_def dns_rule_server_def fun_eq_iff assms by simp_all
  then have "pick_loop r h rules = pick_loop r' h rules" for h rules
    by (induction rules) (simp_all split: option.split)
  then show ?thesis unfolding candidates_def pick_server_def assms by simp
qed

lemma candidates_distinct:
  assumes "distinct (map se_tag (dn_servers r))"
  shows "distinct (map se_tag (candidates r host))"
  using assms by (auto simp: candidates_def distinct_map_filter dest: find_SomeD find_SomeD [OF sym] split: option.splits)



end
