(* ===== verification/User_Registry.thy ===== *)
theory User_Registry
  imports Config
begin

text \<open>
  The registry of panel users (\<^verbatim>\<open>rsb-core/src/user_registry.rs\<close>): the limits and the records read
  from the configuration and the runtime counters. UUIDs are their 128 bits; their text form, SHA-224
  and the hasher of the standard library, whose algorithm is left open there, are the fields of
  the parameter \<open>env\<close>. The concurrent maps are association lists.
\<close>

section \<open>Definitions\<close>

type_synonym Uuid = u128

record UserEnv =
  ue_parse_uuid :: "string \<Rightarrow> Uuid option"
  ue_show_uuid :: "Uuid \<Rightarrow> string"
  ue_sha224_hex :: "string \<Rightarrow> string"
  ue_hash_str :: "string \<Rightarrow> u64"

definition MBPS_TO_BPS_user :: u64 where "MBPS_TO_BPS_user = 125000"

record UserLimits =
  ul_max_connections :: "u64 option"
  ul_max_traffic_bytes :: "u64 option"
  ul_speed_bps :: "u64 option"

definition UserLimits_default :: UserLimits where
  "UserLimits_default = \<lparr>ul_max_connections = None, ul_max_traffic_bytes = None, ul_speed_bps = None\<rparr>"

record UserRecord =
  us_uuid :: Uuid
  us_name :: string
  us_inbound_tag :: string
  us_limits :: UserLimits

record UserRuntime =
  rt_uplink :: u64
  rt_downlink :: u64
  rt_active :: u64

definition UserRuntime_default :: UserRuntime where
  "UserRuntime_default = \<lparr>rt_uplink = 0, rt_downlink = 0, rt_active = 0\<rparr>"

definition runtime_total :: "UserRuntime \<Rightarrow> u64" where
  "runtime_total rt = rt_uplink rt + rt_downlink rt"

record UserRegistry =
  ug_by_uuid :: "(Uuid \<times> UserRecord) list"
  ug_by_name :: "(string \<times> UserRecord) list"
  ug_by_password :: "(string \<times> UserRecord) list"
  ug_by_trojan_hash :: "(string \<times> UserRecord) list"
  ug_by_inbound :: "(string \<times> UserRecord list) list"
  ug_runtime :: "(string \<times> UserRuntime) list"

definition registry_new :: UserRegistry where
  "registry_new = \<lparr>ug_by_uuid = [], ug_by_name = [], ug_by_password = [], ug_by_trojan_hash = [],
     ug_by_inbound = [], ug_runtime = []\<rparr>"

subsection \<open>Limits\<close>

text \<open>The first of several keys that is present.\<close>

definition get_any :: "Value \<Rightarrow> string list \<Rightarrow> Value option" where
  "get_any v ks = (case List.map_filter (json_get v) ks of [] \<Rightarrow> None | x # _ \<Rightarrow> Some x)"

definition or_else :: "'a option \<Rightarrow> 'a option \<Rightarrow> 'a option" where
  "or_else x y = (case x of Some a \<Rightarrow> Some a | None \<Rightarrow> y)"

text \<open>
  Numbers as \<^verbatim>\<open>f64\<close>. A finite float is an integer below \<open>2 ^ 53\<close> times a power of two; a large
  integer is rounded to one, ties to even. \<open>gb * 1024.0 * 1024.0 * 1024.0\<close> is exact, and the
  conversion \<^verbatim>\<open>as u64\<close> drops the fraction and saturates.
\<close>

fun bit_length :: "nat \<Rightarrow> nat" where
  "bit_length n = (if n = 0 then 0 else Suc (bit_length (n div 2)))"

declare bit_length.simps [simp del]

definition round_f64 :: "nat \<Rightarrow> nat" where
  "round_f64 n =
     (let s = bit_length n - 53; q = n div 2 ^ s; r = n mod 2 ^ s in
      (if 2 * r > 2 ^ s \<or> 2 * r = 2 ^ s \<and> odd q then Suc q else q) * 2 ^ s)"

definition saturate_u64 :: "nat \<Rightarrow> u64" where
  "saturate_u64 n = (if n \<ge> 2 ^ 64 then - 1 else of_nat n)"

definition float_gb_bytes :: "u64 \<Rightarrow> u64" where
  "float_gb_bytes w =
     (if bit w 63 then 0
      else
        let e = unat (drop_bit 52 w); m = unat (take_bit 52 w);
            (mant, ex) = (if e = 0 then (m, 1) else (2 ^ 52 + m, e)) in
        saturate_u64 (mant * 2 ^ ex div 2 ^ 1045))"

fun as_f64_gb_bytes :: "Value \<Rightarrow> u64 option" where
  "as_f64_gb_bytes (JNum (PosInt n)) = Some (saturate_u64 (round_f64 (unat n) * 2 ^ 30))"
| "as_f64_gb_bytes (JNum (NegInt i)) = Some 0"
| "as_f64_gb_bytes (JNum (FloatBits w)) = Some (float_gb_bytes w)"
| "as_f64_gb_bytes _ = None"

definition limit_object :: "Value \<Rightarrow> Value option" where
  "limit_object user =
     (case get_any user [''limit'', ''limits''] of Some (JObj kvs) \<Rightarrow> Some (JObj kvs) | _ \<Rightarrow> None)"

definition limit_value :: "Value \<Rightarrow> string list \<Rightarrow> string \<Rightarrow> Value option" where
  "limit_value user ks k = or_else (get_any user ks) (Option.bind (limit_object user) (\<lambda>o'. json_get o' k))"

definition parse_user_limits :: "Value \<Rightarrow> UserLimits" where
  "parse_user_limits user =
     \<lparr>ul_max_connections =
        Option.bind (limit_value user [''conn_limit'', ''connection_limit'', ''max_connections''] ''connections'') as_u64,
      ul_max_traffic_bytes = or_else
        (Option.bind (limit_value user [''traffic_limit_bytes'', ''traffic_limit''] ''traffic_bytes'') as_u64)
        (Option.bind (limit_value user [''traffic_limit_gb''] ''traffic_gb'') as_f64_gb_bytes),
      ul_speed_bps = or_else
        (map_option (\<lambda>mbps. mbps * MBPS_TO_BPS_user)
          (Option.bind (limit_value user [''speed_mbps'', ''download_speed_mbps''] ''speed_mbps'') as_u64))
        (Option.bind (limit_value user [''speed_bps''] ''speed_bps'') as_u64)\<rparr>"

subsection \<open>Records\<close>

definition user_display_name :: "UserEnv \<Rightarrow> Value \<Rightarrow> Uuid \<Rightarrow> string" where
  "user_display_name env user uuid =
     (case Option.bind (get_any user [''name'', ''email'']) as_str of
        Some s \<Rightarrow> s | None \<Rightarrow> ue_show_uuid env uuid)"

definition uuid_from_password :: "UserEnv \<Rightarrow> string \<Rightarrow> Uuid" where
  "uuid_from_password env password =
     (let h = ue_hash_str env password in
      be_fold 0 (rev (be_bytes 8 h) @ rev (be_bytes 8 (word_rotl 17 h))))"

definition trojan_password_hash :: "UserEnv \<Rightarrow> string \<Rightarrow> string" where
  "trojan_password_hash env password = ue_sha224_hex env password"

definition register_user :: "UserEnv \<Rightarrow> UserRecord \<Rightarrow> string option \<Rightarrow> UserRegistry \<Rightarrow> UserRegistry" where
  "register_user env record password g =
     (let g = g\<lparr>ug_by_uuid := AList.update (us_uuid record) record (ug_by_uuid g),
                ug_by_name := AList.update (us_name record) record (ug_by_name g)\<rparr>;
          g = (case password of
              None \<Rightarrow> g
            | Some pass \<Rightarrow> g\<lparr>ug_by_password := AList.update pass record (ug_by_password g),
                ug_by_trojan_hash := AList.update (trojan_password_hash env pass) record (ug_by_trojan_hash g)\<rparr>);
          tag = us_inbound_tag record;
          old = (case map_of (ug_by_inbound g) tag of Some rs \<Rightarrow> rs | None \<Rightarrow> []) in
      g\<lparr>ug_by_inbound := AList.update tag (old @ [record]) (ug_by_inbound g)\<rparr>)"

definition register_uuid :: "UserEnv \<Rightarrow> string \<Rightarrow> Value \<Rightarrow> UserRegistry \<Rightarrow> UserRegistry" where
  "register_uuid env itag user g =
     (case Option.bind (get_str user ''uuid'') (ue_parse_uuid env) of
        None \<Rightarrow> g
      | Some uuid \<Rightarrow> register_user env \<lparr>us_uuid = uuid, us_name = user_display_name env user uuid,
          us_inbound_tag = itag, us_limits = parse_user_limits user\<rparr> None g)"

definition ingest_uuid_users :: "UserEnv \<Rightarrow> Value \<Rightarrow> string \<Rightarrow> UserRegistry \<Rightarrow> UserRegistry" where
  "ingest_uuid_users env raw itag g =
     (case get_array raw ''users'' of
        Some arr \<Rightarrow> fold (register_uuid env itag) arr g
      | None \<Rightarrow> register_uuid env itag raw g)"

definition register_password :: "UserEnv \<Rightarrow> string \<Rightarrow> Value \<Rightarrow> string option \<Rightarrow> UserRegistry \<Rightarrow> UserRegistry" where
  "register_password env itag user password g =
     (case password of
        None \<Rightarrow> g
      | Some pass \<Rightarrow> register_user env \<lparr>us_uuid = uuid_from_password env pass, us_name = user_display_name env user 0,
          us_inbound_tag = itag, us_limits = parse_user_limits user\<rparr> (Some pass) g)"

definition ingest_password_users :: "UserEnv \<Rightarrow> Value \<Rightarrow> string \<Rightarrow> UserRegistry \<Rightarrow> UserRegistry" where
  "ingest_password_users env raw itag g =
     (case get_array raw ''users'' of
        Some arr \<Rightarrow>
          fold (\<lambda>user. register_password env itag user (Option.bind (get_any user [''password'', ''pass'']) as_str)) arr g
      | None \<Rightarrow> register_password env itag raw (get_str raw ''password'') g)"

definition ingest_shadowsocks_users :: "UserEnv \<Rightarrow> Value \<Rightarrow> string \<Rightarrow> UserRegistry \<Rightarrow> UserRegistry" where
  "ingest_shadowsocks_users env raw itag g =
     ingest_password_users env raw itag (register_password env itag raw (get_str raw ''password'') g)"

definition ingest_inbound :: "UserEnv \<Rightarrow> string \<Rightarrow> Value \<Rightarrow> string \<Rightarrow> UserRegistry \<Rightarrow> UserRegistry" where
  "ingest_inbound env kind raw itag g =
     (if kind \<in> {''vless'', ''vmess'', ''tuic''} then ingest_uuid_users env raw itag g
      else if kind \<in> {''trojan'', ''anytls'', ''hysteria2'', ''rsq'', ''rst'', ''shadowtls''}
        then ingest_password_users env raw itag g
      else if kind = ''shadowsocks'' then ingest_shadowsocks_users env raw itag g
      else if json_get raw ''reality'' \<noteq> None then ingest_uuid_users env raw itag g
      else g)"

definition ingest_all :: "UserEnv \<Rightarrow> Options \<Rightarrow> UserRegistry \<Rightarrow> UserRegistry" where
  "ingest_all env options g =
     fold (\<lambda>(i, ib). ingest_inbound env (ib_kind ib) (ib_raw ib) (inbound_tag ib i)) (enumerate 0 (op_inbounds options)) g"

definition registry_from_options :: "UserEnv \<Rightarrow> Options \<Rightarrow> UserRegistry" where
  "registry_from_options env options = ingest_all env options registry_new"

definition reload_from_options :: "UserEnv \<Rightarrow> Options \<Rightarrow> UserRegistry \<Rightarrow> UserRegistry" where
  "reload_from_options env options g =
     ingest_all env options (g\<lparr>ug_by_uuid := [], ug_by_name := [], ug_by_password := [],
       ug_by_trojan_hash := [], ug_by_inbound := []\<rparr>)"

definition lookup_uuid :: "UserRegistry \<Rightarrow> Uuid \<Rightarrow> UserRecord option" where
  "lookup_uuid g uuid = map_of (ug_by_uuid g) uuid"

definition lookup_password :: "UserRegistry \<Rightarrow> string \<Rightarrow> UserRecord option" where
  "lookup_password g password = map_of (ug_by_password g) password"

definition lookup_trojan_hash :: "UserRegistry \<Rightarrow> string \<Rightarrow> UserRecord option" where
  "lookup_trojan_hash g hash = map_of (ug_by_trojan_hash g) hash"

definition first_for_inbound :: "UserRegistry \<Rightarrow> string \<Rightarrow> UserRecord option" where
  "first_for_inbound g tag =
     (case map_of (ug_by_inbound g) tag of Some (r # _) \<Rightarrow> Some r | _ \<Rightarrow> None)"

definition user_names :: "UserRegistry \<Rightarrow> string list" where
  "user_names g = map fst (ug_by_name g)"

definition user_records :: "UserRegistry \<Rightarrow> UserRecord list" where
  "user_records g = map snd (ug_by_name g)"

text \<open>
  \<^verbatim>\<open>runtime\<close> makes the counters of a user if they do not exist and returns a handle to
  them; \<open>runtime_of\<close> reads through the handle and \<open>upd_runtime\<close> writes.
\<close>

definition runtime :: "string \<Rightarrow> UserRegistry \<Rightarrow> UserRegistry" where
  "runtime name g =
     (case map_of (ug_runtime g) name of
        Some _ \<Rightarrow> g
      | None \<Rightarrow> g\<lparr>ug_runtime := AList.update name UserRuntime_default (ug_runtime g)\<rparr>)"

definition runtime_of :: "UserRegistry \<Rightarrow> string \<Rightarrow> UserRuntime" where
  "runtime_of g name = (case map_of (ug_runtime g) name of Some rt \<Rightarrow> rt | None \<Rightarrow> UserRuntime_default)"

definition upd_runtime :: "string \<Rightarrow> (UserRuntime \<Rightarrow> UserRuntime) \<Rightarrow> UserRegistry \<Rightarrow> UserRegistry" where
  "upd_runtime name f g = g\<lparr>ug_runtime := AList.update name (f (runtime_of g name)) (ug_runtime g)\<rparr>"


section \<open>Lookups after reading a configuration\<close>

lemma runtime_of_simps [simp]:
  "runtime_of (runtime n g) m = runtime_of g m"
  "runtime_of (upd_runtime n f g) m = (if m = n then f (runtime_of g n) else runtime_of g m)"
  by (auto simp: runtime_of_def runtime_def upd_runtime_def update_conv' split: option.split)

lemma user_names_simps [simp]:
  "user_names (runtime n g) = user_names g" "user_names (upd_runtime n f g) = user_names g"
  by (auto simp: user_names_def runtime_def upd_runtime_def split: option.split)

lemma register_user_lookup:
  "lookup_uuid (register_user env r p g) u = (if u = us_uuid r then Some r else lookup_uuid g u)"
  "lookup_password (register_user env r p g) q = (if p = Some q then Some r else lookup_password g q)"
  "ug_runtime (register_user env r p g) = ug_runtime g"
  by (auto simp: register_user_def lookup_uuid_def lookup_password_def Let_def update_conv' split: option.splits)

lemma ingest_runtime: "ug_runtime (ingest_inbound env kind raw tag g) = ug_runtime g"
proof -
  have r: "ug_runtime (register_uuid env tag u h) = ug_runtime h"
    "ug_runtime (register_password env tag u p h) = ug_runtime h" for u p h
    by (auto simp: register_uuid_def register_password_def register_user_lookup split: option.split)
  then have f: "ug_runtime (fold (register_uuid env tag) arr h) = ug_runtime h"
    "ug_runtime (fold (\<lambda>user. register_password env tag user (pw user)) arr h) = ug_runtime h" for arr h pw
    by (induction arr arbitrary: h) simp_all
  show ?thesis
    by (auto simp: ingest_inbound_def ingest_uuid_users_def ingest_password_users_def
      ingest_shadowsocks_users_def f r split: option.split)
qed

lemma ingest_all_runtime: "ug_runtime (ingest_all env opts g) = ug_runtime g"
proof -
  have "ug_runtime (fold (\<lambda>(i, ib). ingest_inbound env (ib_kind ib) (ib_raw ib) (inbound_tag ib i)) es h) = ug_runtime h" for es h
    by (induction es arbitrary: h) (auto simp: ingest_runtime)
  then show ?thesis by (simp add: ingest_all_def)
qed

text \<open>Registering a user again does not depend on the counters.\<close>

lemma ingest_all_upd_runtime:
  "ingest_all env opts (g\<lparr>ug_runtime := rt\<rparr>) = (ingest_all env opts g)\<lparr>ug_runtime := rt\<rparr>"
proof -
  have u: "register_user env r p (h\<lparr>ug_runtime := rt\<rparr>) = (register_user env r p h)\<lparr>ug_runtime := rt\<rparr>" for r p h
    by (auto simp: register_user_def Let_def split: option.split)
  have r: "register_uuid env tag x (h\<lparr>ug_runtime := rt\<rparr>) = (register_uuid env tag x h)\<lparr>ug_runtime := rt\<rparr>"
    "register_password env tag x p (h\<lparr>ug_runtime := rt\<rparr>) = (register_password env tag x p h)\<lparr>ug_runtime := rt\<rparr>" for tag x p h
    by (auto simp: register_uuid_def register_password_def u split: option.split)
  have f: "fold F xs (h\<lparr>ug_runtime := rt\<rparr>) = (fold F xs h)\<lparr>ug_runtime := rt\<rparr>"
    if "\<And>x h. F x (h\<lparr>ug_runtime := rt\<rparr>) = (F x h)\<lparr>ug_runtime := rt\<rparr>" for F :: "'b \<Rightarrow> UserRegistry \<Rightarrow> UserRegistry" and xs h
    using that by (induction xs arbitrary: h) simp_all
  have "ingest_inbound env k raw tag (h\<lparr>ug_runtime := rt\<rparr>) = (ingest_inbound env k raw tag h)\<lparr>ug_runtime := rt\<rparr>" for k raw tag h
    by (auto simp: ingest_inbound_def ingest_uuid_users_def ingest_password_users_def
      ingest_shadowsocks_users_def f r split: option.split)
  then show ?thesis unfolding ingest_all_def by (intro f) auto
qed

text \<open>
  C31: Reloading the users from a configuration gives the registry one would build from it at
  the start, except that the counters of all users keep their values: a reload neither
  forgets a running session nor refills a traffic quota.
\<close>
theorem reload_keeps_counters:
  "reload_from_options env options g = (registry_from_options env options)\<lparr>ug_runtime := ug_runtime g\<rparr>"
proof -
  have "g\<lparr>ug_by_uuid := [], ug_by_name := [], ug_by_password := [], ug_by_trojan_hash := [], ug_by_inbound := []\<rparr> =
      registry_new\<lparr>ug_runtime := ug_runtime g\<rparr>"
    by (simp add: registry_new_def)
  then show ?thesis
    by (simp only: reload_from_options_def registry_from_options_def ingest_all_upd_runtime)
qed

end
