(* ===== verification/Rust_Float.thy ===== *)
theory Rust_Float
  imports Rust_Prelude "HOL-Library.Log_Nat"
begin

text \<open>
  The floating-point numbers of the standard library where the code computes with them: finite
  \<^verbatim>\<open>f64\<close> values are rationals, and every operation rounds its exact result to 53 significant
  bits, ties to even. Overflow and subnormal numbers do not arise in the code modelled here.
\<close>

section \<open>Definitions\<close>

definition pow2 :: "int \<Rightarrow> rat" where
  "pow2 k = (if k \<ge> 0 then 2 ^ nat k else 1 / 2 ^ nat (- k))"

definition f64_exponent :: "rat \<Rightarrow> int" where
  "f64_exponent x =
     (let (a, b) = quotient_of x; k = bitlen a - bitlen b in
      if x < pow2 k then k - 1 else k)"

definition round_even :: "rat \<Rightarrow> int" where
  "round_even x =
     (let q = \<lfloor>x\<rfloor>; r = x - of_int q in
      if r > 1 / 2 \<or> r = 1 / 2 \<and> odd q then q + 1 else q)"

definition f64_round :: "rat \<Rightarrow> rat" where
  "f64_round x =
     (if x = 0 then 0
      else
        let ulp = pow2 (f64_exponent \<bar>x\<bar> - 52) in
        (if x < 0 then - 1 else 1) * (of_int (round_even (\<bar>x\<bar> / ulp)) * ulp))"

text \<open>\<^verbatim>\<open>Duration::as_secs_f64\<close> and \<^verbatim>\<open>Duration::from_secs_f64\<close>; a duration is in nanoseconds.\<close>

definition as_secs_f64 :: "nat \<Rightarrow> rat" where
  "as_secs_f64 d = f64_round (f64_round (of_nat (d div 10 ^ 9)) + f64_round (of_nat (d mod 10 ^ 9) / 10 ^ 9))"

definition from_secs_f64 :: "rat \<Rightarrow> nat res" where
  "from_secs_f64 s =
     (if s < 0 \<or> s \<ge> 2 ^ 64 then Inl (Panic ''cannot convert float seconds to Duration'')
      else Inr (nat (round_even (s * 10 ^ 9))))"


section \<open>Exact values\<close>

lemma pow2_pos [simp]: "0 < pow2 k"
  by (simp add: pow2_def)

lemma pow2_nonzero [simp]: "pow2 k \<noteq> 0"
  using pow2_pos [of k] by linarith

lemma abs_pow2 [simp]: "\<bar>pow2 k\<bar> = pow2 k"
  using pow2_pos [of k] by linarith

lemma pow2_not_neg [simp]: "\<not> pow2 k < 0"
  using pow2_pos [of k] by linarith

lemma pow2_add: "pow2 (a + b) = pow2 a * pow2 b"
proof -
  have "pow2 k = 2 powi k" for k by (simp add: pow2_def power_int_def field_simps)
  then show ?thesis by (simp add: power_int_add)
qed

lemma pow2_nat: "pow2 (int n) = 2 ^ n" by (simp add: pow2_def)

lemma pow2_minus_nat: "pow2 (- int n) = 1 / 2 ^ n" by (simp add: pow2_def)

lemma pow2_mono: "a \<le> b \<Longrightarrow> pow2 a \<le> pow2 b"
proof -
  assume "a \<le> b"
  then obtain n where n: "b = a + int n" using zle_iff_zadd by blast
  have "1 \<le> (2 :: rat) ^ n" by simp
  then have "pow2 a * 1 \<le> pow2 a * 2 ^ n" by (intro mult_left_mono) (simp_all add: less_imp_le)
  then show ?thesis by (simp add: n pow2_add pow2_nat)
qed

lemma f64_exponent_le:
  assumes "0 < x"
  shows "pow2 (f64_exponent x) \<le> x"
proof -
  obtain a b where q: "quotient_of x = (a, b)" by fastforce
  then have x: "x = of_int a / of_int b" and b: "0 < b"
    using quotient_of_div quotient_of_denom_pos by auto
  with assms have a: "0 < a" by (simp add: zero_less_divide_iff)
  have "2 ^ nat (bitlen a - 1) \<le> a" using bitlen_bounds [OF a] by simp
  then have la: "pow2 (bitlen a - 1) \<le> of_int a"
    using a by (metis (mono_tags) bitlen_nonneg bitlen_ge_iff_power of_int_le_iff of_int_numeral of_int_power pow2_def bitlen_eq_zero_iff
      diff_ge_0_iff_ge int_one_le_iff_zero_less less_le not_le)
  have "b < 2 ^ nat (bitlen b)" using bitlen_bounds [OF b] by simp
  then have lb: "of_int b < pow2 (bitlen b)"
    by (metis bitlen_nonneg of_int_less_iff of_int_numeral of_int_power pow2_def)
  have "pow2 (bitlen a - bitlen b - 1) * pow2 (bitlen b) = pow2 (bitlen a - 1)"
    by (simp flip: pow2_add)
  then have "pow2 (bitlen a - bitlen b - 1) * of_int b \<le> of_int a"
    using la lb mult_left_mono [of "of_int b" "pow2 (bitlen b)" "pow2 (bitlen a - bitlen b - 1)"]
    by (simp add: less_imp_le)
  then have "pow2 (bitlen a - bitlen b - 1) \<le> x" using b by (simp add: x field_simps)
  then show ?thesis by (auto simp: f64_exponent_def q Let_def)
qed

lemma round_even_int [simp]: "round_even (of_int n) = n"
  by (simp add: round_even_def)

lemma f64_round_exact:
  assumes "\<bar>m\<bar> < 2 ^ 53"
  shows "f64_round (of_int m * pow2 k) = of_int m * pow2 k"
proof (cases "m = 0")
  case False
  define x where "x = of_int \<bar>m\<bar> * pow2 k"
  define e where "e = f64_exponent x"
  have x: "0 < x" using False by (simp add: x_def)
  have "(2 :: rat) ^ 53 = pow2 53" by (simp add: pow2_def)
  then have "of_int \<bar>m\<bar> < pow2 53" using assms by (metis of_int_less_iff of_int_numeral of_int_power)
  then have "x < pow2 53 * pow2 k" unfolding x_def by (intro mult_strict_right_mono) simp_all
  then have "pow2 e < pow2 (53 + k)"
    using f64_exponent_le [OF x] by (simp add: e_def pow2_add)
  then have "e < 53 + k" using pow2_mono [of "53 + k" e] by linarith
  then obtain n where n: "k = e - 52 + int n" using zle_iff_zadd [of "e - 52" k] by auto
  have d: "x / pow2 (e - 52) = of_int (\<bar>m\<bar> * 2 ^ n)"
    unfolding x_def n pow2_add pow2_nat by simp
  have ab: "\<bar>of_int m * pow2 k\<bar> = x" by (simp add: x_def abs_mult)
  have "f64_round (of_int m * pow2 k) = (if m < 0 then - 1 else 1) * (x / pow2 (e - 52) * pow2 (e - 52))"
    using False x unfolding f64_round_def ab
    by (simp add: e_def [symmetric] Let_def d mult_less_0_iff del: of_int_mult)
  then show ?thesis using False by (simp add: x_def)
qed (simp add: f64_round_def)

lemma f64_round_nat: "n < 2 ^ 53 \<Longrightarrow> f64_round (of_nat n) = of_nat n"
  using f64_round_exact [of "int n" 0] by (simp add: pow2_def)

lemma f64_round_dyadic: "n < 2 ^ 53 \<Longrightarrow> f64_round (of_nat n / 2 ^ k) = of_nat n / 2 ^ k"
  using f64_round_exact [of "int n" "- int k"] by (simp add: pow2_minus_nat)

end
