(* ===== verification/Rate_Limit.thy ===== *)
theory Rate_Limit
  imports Rust_Float
begin

text \<open>
  The token bucket (\<^verbatim>\<open>rsb-core/src/rate_limit.rs\<close>). Instants and durations are in nanoseconds;
  \<open>sleep now w\<close> is the instant at which a task that sleeps for \<open>w\<close> from \<open>now\<close> on runs again.
\<close>

section \<open>Definitions\<close>

record RateLimiter =
  rl_bytes_per_sec :: u64
  rl_last :: nat
  rl_tokens :: rat

definition limiter_new :: "nat \<Rightarrow> u64 \<Rightarrow> RateLimiter" where
  "limiter_new now bps = \<lparr>rl_bytes_per_sec = bps, rl_last = now, rl_tokens = f64_round (of_nat (unat bps))\<rparr>"

definition acquire_wait :: "nat \<Rightarrow> u64 \<Rightarrow> RateLimiter \<Rightarrow> (nat \<times> RateLimiter) res" where
  "acquire_wait now nbytes l =
     (if rl_bytes_per_sec l = 0 \<or> nbytes = 0 then Inr (0, l)
      else
        let bps = f64_round (of_nat (unat (rl_bytes_per_sec l)));
            n = f64_round (of_nat (unat nbytes));
            elapsed = as_secs_f64 (now - rl_last l);
            tokens = f64_round (rl_tokens l + f64_round (elapsed * bps));
            cap = f64_round (bps * 2);
            tokens = (if tokens > cap then cap else tokens);
            l = l\<lparr>rl_last := now\<rparr> in
        if tokens \<ge> n then Inr (0, l\<lparr>rl_tokens := f64_round (tokens - n)\<rparr>)
        else
          let deficit = f64_round (n - tokens) in
          bindR (from_secs_f64 (f64_round (deficit / bps))) (\<lambda>wait. Inr (wait, l\<lparr>rl_tokens := 0\<rparr>)))"

text \<open>The loop of \<^verbatim>\<open>throttle\<close>, with at most so many rounds as the first argument says.\<close>

fun throttle :: "nat \<Rightarrow> (nat \<Rightarrow> nat \<Rightarrow> nat) \<Rightarrow> u64 \<Rightarrow> nat \<Rightarrow> RateLimiter \<Rightarrow> (nat \<times> RateLimiter) res option" where
  "throttle 0 sleep nbytes now l = None"
| "throttle (Suc k) sleep nbytes now l =
     (if rl_bytes_per_sec l = 0 \<or> nbytes = 0 then Some (Inr (now, l))
      else
        case acquire_wait now nbytes l of
          Inl e \<Rightarrow> Some (Inl e)
        | Inr (wait, l) \<Rightarrow>
            if wait = 0 then Some (Inr (now, l))
            else throttle k sleep nbytes (sleep now wait) l)"


section \<open>When does throttling end?\<close>

text \<open>
  Rates that are powers of two and amounts that are multiples of a 512th of the rate: all
  numbers are exact, and a waiting time is a whole number of nanoseconds.
\<close>

definition tick_ns :: nat where "tick_ns = 1953125"

lemma as_secs_ticks:
  assumes "d < 2 ^ 40"
  shows "as_secs_f64 (d * tick_ns) = of_nat d / 512"
proof -
  define q r where "q = d div 512" and "r = d mod 512"
  have d: "d = q * 512 + r" and r: "r < 512" by (simp_all add: q_def r_def)
  have e: "d * tick_ns = q * 10 ^ 9 + r * tick_ns" by (simp add: d tick_ns_def algebra_simps)
  have "r * tick_ns < 10 ^ 9" using r by (simp add: tick_ns_def)
  then have dm: "d * tick_ns div 10 ^ 9 = q" "d * tick_ns mod 10 ^ 9 = r * tick_ns" unfolding e by simp_all
  have n: "of_nat (r * tick_ns) / 10 ^ 9 = (of_nat r / 2 ^ 9 :: rat)" by (simp add: tick_ns_def)
  have s: "of_nat q + of_nat r / 2 ^ 9 = (of_nat d / 2 ^ 9 :: rat)" by (simp add: d field_simps)
  have "q < 2 ^ 53" "r < 2 ^ 53" "d < 2 ^ 53" using assms d r by simp_all
  then show ?thesis
    unfolding as_secs_f64_def dm n by (simp only: f64_round_nat f64_round_dyadic s) simp
qed

lemma unat_rate: "p < 64 \<Longrightarrow> unat (2 ^ p :: u64) = 2 ^ p"
proof -
  assume "p < 64"
  then have "(2 :: nat) ^ p < 2 ^ 64" by (intro power_strict_increasing) auto
  then show ?thesis using unat_of_nat [of "2 ^ p", where 'a = 64] by simp
qed

lemma amount_small:
  assumes "p \<le> 40" "k \<le> 2048"
  shows "k * 2 ^ (p - 9) < (2 :: nat) ^ 53"
proof -
  have "(2 :: nat) ^ (p - 9) \<le> 2 ^ 31" using assms(1) by (intro power_increasing) auto
  then have "k * 2 ^ (p - 9) \<le> 2048 * (2 :: nat) ^ 31" using assms(2) by (intro mult_le_mono)
  then show ?thesis by simp
qed

lemma unat_amount: "p \<le> 40 \<Longrightarrow> n \<le> 2048 \<Longrightarrow> unat (of_nat (n * 2 ^ (p - 9)) :: u64) = n * 2 ^ (p - 9)"
  using amount_small [of p n] by (subst unat_of_nat) simp

lemma amount_nonzero:
  assumes "p \<le> 40" "0 < n" "n \<le> 1024"
  shows "(of_nat (n * 2 ^ (p - 9)) :: u64) \<noteq> 0"
proof
  assume "(of_nat (n * 2 ^ (p - 9)) :: u64) = 0"
  then have "unat (of_nat (n * 2 ^ (p - 9)) :: u64) = 0" by (simp only: unat_0)
  then have "n * 2 ^ (p - 9) = 0" using unat_amount [of p n] assms(1,3) by linarith
  then show False using assms(2) by simp
qed

text \<open>One look at the bucket, with \<open>a\<close> 512ths in it and \<open>d\<close> 512ths of a second after the last look.\<close>

lemma acquire_wait_ticks:
  assumes "9 \<le> p" "p \<le> 40" "0 < n" "n \<le> 1024" "a \<le> 1024" "d \<le> 1024"
    and "rl_bytes_per_sec l = 2 ^ p" "rl_tokens l = of_nat a * 2 ^ (p - 9)" "now = rl_last l + d * tick_ns"
  shows "acquire_wait now (of_nat (n * 2 ^ (p - 9))) l =
     (if n \<le> min (a + d) 1024
      then Inr (0, l\<lparr>rl_last := now, rl_tokens := of_nat (min (a + d) 1024 - n) * 2 ^ (p - 9)\<rparr>)
      else Inr ((n - min (a + d) 1024) * tick_ns, l\<lparr>rl_last := now, rl_tokens := 0\<rparr>))"
proof -
  define U :: rat where "U = 2 ^ (p - 9)"
  define b where "b = min (a + d) 1024"
  define N :: u64 where "N = of_nat (n * 2 ^ (p - 9))"
  have U: "0 < U" by (simp add: U_def)
  have u: "(2 :: rat) ^ p = 512 * U" using assms(1) power_add [of "2 :: rat" 9 "p - 9"] by (simp add: U_def)
  have ex: "f64_round (of_nat k * U) = of_nat k * U" if "k \<le> 2048" for k
    using f64_round_nat [OF amount_small [OF assms(2) that]] by (simp add: U_def)
  have n1: "unat N = n * 2 ^ (p - 9)"
    using unat_amount [of p n] assms(2,4) unfolding N_def by linarith
  then have n2: "f64_round (of_nat (unat N)) = of_nat n * U" "N \<noteq> 0"
    using ex [of n] assms(3,4) by (auto simp: U_def)
  have bps: "f64_round (of_nat (unat (2 ^ p :: u64))) = of_nat 512 * U" "(2 ^ p :: u64) \<noteq> 0"
    using ex [of 512] unat_rate [of p] assms(2) u by auto
  have el: "as_secs_f64 (now - rl_last l) = of_nat d / 512" using assms(6,9) by (simp add: as_secs_ticks)
  have gain: "f64_round (of_nat d / 512 * (of_nat 512 * U)) = of_nat d * U" using ex [of d] assms(6) by simp
  have sum: "f64_round (of_nat a * U + of_nat d * U) = of_nat (a + d) * U"
    using ex [of "a + d"] assms(5,6) by (simp add: algebra_simps)
  have cap: "f64_round (of_nat 512 * U * 2) = of_nat 1024 * U" using ex [of 1024] by simp
  have tok: "(if of_nat (a + d) * U > of_nat 1024 * U then of_nat 1024 * U else of_nat (a + d) * U) = of_nat b * U"
    using U by (simp add: min_def b_def del: of_nat_add)
  have cmp: "of_nat n * U \<le> of_nat b * U \<longleftrightarrow> n \<le> b" using U by simp
  have dif: "f64_round (of_nat x * U - of_nat y * U) = of_nat (x - y) * U" if "y \<le> x" "x \<le> 1024" for x y
    using ex [of "x - y"] that by (simp add: of_nat_diff algebra_simps)
  have dur: "from_secs_f64 (f64_round (of_nat x * U / (of_nat 512 * U))) = Inr (x * tick_ns)" if "x \<le> 1024" for x
  proof -
    have r: "f64_round (of_nat x * U / (of_nat 512 * U)) = of_nat x / 2 ^ 9"
      using f64_round_dyadic [of x 9] that U by simp
    have i: "of_nat x / 2 ^ 9 * 10 ^ 9 = (of_int (int (x * tick_ns)) :: rat)" by (simp add: tick_ns_def)
    have "of_nat x \<le> (1024 :: rat)" using that by (metis of_nat_le_iff of_nat_numeral)
    then show ?thesis unfolding from_secs_f64_def r i round_even_int by (simp del: of_nat_mult)
  qed
  have t: "rl_tokens l = of_nat a * U" by (simp add: assms(8) U_def)
  have b: "b \<le> 1024" by (simp add: b_def)
  have "acquire_wait now N l =
     (if n \<le> b then Inr (0, l\<lparr>rl_last := now, rl_tokens := of_nat (b - n) * U\<rparr>)
      else Inr ((n - b) * tick_ns, l\<lparr>rl_last := now, rl_tokens := 0\<rparr>))"
  proof (cases "n \<le> b")
    case True
    then show ?thesis
      unfolding acquire_wait_def assms(7) t n2(1) bps(1) el Let_def gain sum cap tok cmp dif [OF True b]
      using n2(2) bps(2) by simp
  next
    case False
    then have le: "b \<le> n" "n - b \<le> 1024" using assms(4) by auto
    from False show ?thesis
      unfolding acquire_wait_def assms(7) t n2(1) bps(1) el Let_def gain sum cap tok cmp
        dif [OF le(1) assms(4)] dur [OF le(2)]
      using n2(2) bps(2) by simp
  qed
  then show ?thesis unfolding N_def b_def U_def .
qed


text \<open>
  With exact timers: a bucket that holds part of the amount is emptied by the first look, the next
  two waiting times are the missing part and the part that was thrown away, and so on.
\<close>

lemma throttle_alternates:
  assumes "9 \<le> p" "p \<le> 40" "0 < a" "a < n" "n \<le> 1024"
    and "rl_bytes_per_sec l = 2 ^ p" "rl_tokens l = 0" "now = rl_last l + a * tick_ns"
  shows "throttle k (+) (of_nat (n * 2 ^ (p - 9))) now l = None"
  using assms
proof (induction k arbitrary: a now l)
  case (Suc k)
  let ?N = "of_nat (n * 2 ^ (p - 9)) :: u64" and ?l = "l\<lparr>rl_last := now, rl_tokens := 0\<rparr>"
  have w: "acquire_wait now ?N l = Inr ((n - a) * tick_ns, ?l)"
    using acquire_wait_ticks [of p n 0 a l now] Suc.prems by simp
  have "throttle k (+) ?N (now + (n - a) * tick_ns) ?l = None"
    using Suc.prems by (intro Suc.IH [of "n - a"]) simp_all
  moreover have "?N \<noteq> 0" using amount_nonzero Suc.prems(2,4,5) by simp
  ultimately show ?case unfolding throttle.simps w using Suc.prems(2,4,6) by (simp add: tick_ns_def del: of_nat_mult)
qed simp




end
