(* ===== verification/Connection_Manager.thy ===== *)
theory Connection_Manager
  imports User_Registry Rate_Limit Rust_Net
begin

text \<open>
  The connection manager (\<^verbatim>\<open>rsb-core/src/connection_manager.rs\<close>) and the relay sessions of panel
  users (\<^verbatim>\<open>UserRelaySession\<close> and \<^verbatim>\<open>relay_user_half\<close> of \<^verbatim>\<open>rsb-protocol/src/inbound_proxy.rs\<close>,
  \<^verbatim>\<open>user_relay.rs\<close>). A handle to shared counters is the name under which they are found.
  An operation on one atomic counter is one step; operations that read a counter and write it
  later are given as their steps, so that steps of other tasks can come in between.
\<close>

section \<open>Definitions\<close>

subsection \<open>Counters\<close>

record TrafficStats =
  ts_uplink :: u64
  ts_downlink :: u64

definition stats_new :: TrafficStats where "stats_new = \<lparr>ts_uplink = 0, ts_downlink = 0\<rparr>"

definition add_uplink :: "u64 \<Rightarrow> TrafficStats \<Rightarrow> TrafficStats" where
  "add_uplink n s = s\<lparr>ts_uplink := ts_uplink s + n\<rparr>"

definition add_downlink :: "u64 \<Rightarrow> TrafficStats \<Rightarrow> TrafficStats" where
  "add_downlink n s = s\<lparr>ts_downlink := ts_downlink s + n\<rparr>"

definition snapshot :: "TrafficStats \<Rightarrow> u64 \<times> u64" where
  "snapshot s = (ts_uplink s, ts_downlink s)"

type_synonym stats_map = "(string \<times> TrafficStats) list"

definition stats_of :: "stats_map \<Rightarrow> string \<Rightarrow> TrafficStats" where
  "stats_of m k = (case map_of m k of Some s \<Rightarrow> s | None \<Rightarrow> stats_new)"

text \<open>\<^verbatim>\<open>entry(k).or_default()\<close> followed by an operation on the entry.\<close>

definition upd_stats :: "string \<Rightarrow> (TrafficStats \<Rightarrow> TrafficStats) \<Rightarrow> stats_map \<Rightarrow> stats_map" where
  "upd_stats k f m = AList.update k (f (stats_of m k)) m"

record ConnectionInfo =
  ci_id :: u64
  ci_inbound_tag :: string
  ci_outbound_tag :: string
  ci_network :: string
  ci_source :: "SocketAddr option"
  ci_destination :: "SocketAddr option"
  ci_domain :: "string option"
  ci_user :: "string option"
  ci_started_at :: u64

record ConnectionManager =
  cm_next_id :: u64
  cm_active :: "(u64 \<times> ConnectionInfo) list"
  cm_total :: u64
  cm_global :: TrafficStats
  cm_by_outbound :: stats_map
  cm_by_inbound :: stats_map
  cm_by_user :: stats_map
  cm_users :: UserRegistry
  cm_limiters :: "(string \<times> RateLimiter) list"

definition with_registry :: "UserRegistry \<Rightarrow> ConnectionManager" where
  "with_registry users = \<lparr>cm_next_id = 1, cm_active = [], cm_total = 0, cm_global = stats_new, cm_by_outbound = [],
     cm_by_inbound = [], cm_by_user = [], cm_users = users, cm_limiters = []\<rparr>"

definition manager_new :: ConnectionManager where "manager_new = with_registry registry_new"

definition user_limiter :: "nat \<Rightarrow> string \<Rightarrow> u64 option \<Rightarrow> ConnectionManager \<Rightarrow> bool \<times> ConnectionManager" where
  "user_limiter now name speed_bps cm =
     (case speed_bps of
        None \<Rightarrow> (False, cm)
      | Some bps \<Rightarrow>
          if bps = 0 then (False, cm)
          else
            (True, case map_of (cm_limiters cm) name of
                Some _ \<Rightarrow> cm
              | None \<Rightarrow> cm\<lparr>cm_limiters := AList.update name (limiter_new now bps) (cm_limiters cm)\<rparr>))"

subsection \<open>Sessions and limits\<close>

definition acquire_check :: "string \<Rightarrow> UserLimits \<Rightarrow> ConnectionManager \<Rightarrow> unit res \<times> ConnectionManager" where
  "acquire_check name limits cm =
     (let cm = cm\<lparr>cm_users := runtime name (cm_users cm)\<rparr>; rt = runtime_of (cm_users cm) name;
          quota = (case ul_max_traffic_bytes limits of
              Some max_bytes \<Rightarrow>
                if runtime_total rt \<ge> max_bytes then Inl (Err (''user `'' @ name @ ''` traffic quota exceeded'')) else Inr ()
            | None \<Rightarrow> Inr ()) in
      (case ul_max_connections limits of
         Some m \<Rightarrow>
           if rt_active rt \<ge> m
           then Inl (Err (''user `'' @ name @ ''` connection limit reached ('' @ show_nat (unat m) @ '')''))
           else quota
       | None \<Rightarrow> quota, cm))"

definition upd_active :: "string \<Rightarrow> (u64 \<Rightarrow> u64) \<Rightarrow> ConnectionManager \<Rightarrow> ConnectionManager" where
  "upd_active name f cm =
     cm\<lparr>cm_users := upd_runtime name (\<lambda>rt. rt\<lparr>rt_active := f (rt_active rt)\<rparr>) (cm_users cm)\<rparr>"

definition acquire_commit :: "string \<Rightarrow> ConnectionManager \<Rightarrow> ConnectionManager" where
  "acquire_commit name = upd_active name (\<lambda>n. n + 1)"

definition acquire_user :: "string \<Rightarrow> UserLimits \<Rightarrow> ConnectionManager \<Rightarrow> unit res \<times> ConnectionManager" where
  "acquire_user name limits cm =
     (case acquire_check name limits cm of
        (Inl e, cm) \<Rightarrow> (Inl e, cm)
      | (Inr _, cm) \<Rightarrow> (Inr (), acquire_commit name cm))"

definition guard_drop :: "string \<Rightarrow> ConnectionManager \<Rightarrow> ConnectionManager" where
  "guard_drop name = upd_active name (\<lambda>n. n - 1)"

definition record_traffic ::
    "string \<Rightarrow> string \<Rightarrow> u64 \<Rightarrow> u64 \<Rightarrow> string option \<Rightarrow> ConnectionManager \<Rightarrow> ConnectionManager" where
  "record_traffic itag otag up down user cm =
     (let add = add_downlink down \<circ> add_uplink up;
          cm = cm\<lparr>cm_global := add (cm_global cm),
             cm_by_outbound := upd_stats otag (add_downlink down) (upd_stats otag (add_uplink up) (cm_by_outbound cm)),
             cm_by_inbound := upd_stats itag (add_downlink down) (upd_stats itag (add_uplink up) (cm_by_inbound cm))\<rparr> in
      case user of
        None \<Rightarrow> cm
      | Some name \<Rightarrow> cm\<lparr>
          cm_by_user := upd_stats name (add_downlink down) (upd_stats name (add_uplink up) (cm_by_user cm)),
          cm_users := upd_runtime name (\<lambda>rt. rt\<lparr>rt_uplink := rt_uplink rt + up, rt_downlink := rt_downlink rt + down\<rparr>)
            (runtime name (cm_users cm))\<rparr>)"

definition user_quota_ok :: "string \<Rightarrow> UserLimits \<Rightarrow> ConnectionManager \<Rightarrow> bool \<times> ConnectionManager" where
  "user_quota_ok name limits cm =
     (case ul_max_traffic_bytes limits of
        None \<Rightarrow> (True, cm)
      | Some m \<Rightarrow>
          (let cm = cm\<lparr>cm_users := runtime name (cm_users cm)\<rparr> in
           (runtime_total (runtime_of (cm_users cm) name) < m, cm)))"

subsection \<open>Statistics\<close>

definition stat_name :: "string \<Rightarrow> string \<Rightarrow> string \<Rightarrow> string" where
  "stat_name kind tag dir = kind @ ''>>>'' @ tag @ ''>>>traffic>>>'' @ dir"

definition stats_entries :: "string \<Rightarrow> stats_map \<Rightarrow> (string \<times> u64) list" where
  "stats_entries kind m =
     concat (map (\<lambda>(tag, s). [(stat_name kind tag ''uplink'', ts_uplink s), (stat_name kind tag ''downlink'', ts_downlink s)]) m)"

definition user_active_count :: "string \<Rightarrow> ConnectionManager \<Rightarrow> u64 \<times> ConnectionManager" where
  "user_active_count name cm =
     (let cm = cm\<lparr>cm_users := runtime name (cm_users cm)\<rparr> in (rt_active (runtime_of (cm_users cm) name), cm))"

fun active_entries :: "string list \<Rightarrow> ConnectionManager \<Rightarrow> (string \<times> u64) list \<times> ConnectionManager" where
  "active_entries [] cm = ([], cm)"
| "active_entries (name # names) cm =
     (let (n, cm) = user_active_count name cm; (es, cm) = active_entries names cm in
      ((if n > 0 then [(''user>>>'' @ name @ ''>>>active'', n)] else []) @ es, cm))"

definition v2ray_stat_entries :: "ConnectionManager \<Rightarrow> (string \<times> u64) list \<times> ConnectionManager" where
  "v2ray_stat_entries cm =
     (let (es, cm') = active_entries (user_names (cm_users cm)) cm in
      ([(''global>>>uplink'', ts_uplink (cm_global cm)), (''global>>>downlink'', ts_downlink (cm_global cm))] @
       stats_entries ''inbound'' (cm_by_inbound cm) @ stats_entries ''outbound'' (cm_by_outbound cm) @
       stats_entries ''user'' (cm_by_user cm) @ es, cm'))"

text \<open>\<^verbatim>\<open>str::split_once\<close> with a string.\<close>

fun split_once_str :: "string \<Rightarrow> string \<Rightarrow> (string \<times> string) option" where
  "split_once_str p [] = (if p = [] then Some ([], []) else None)"
| "split_once_str p (c # cs) =
     (if starts_with (c # cs) p then Some ([], drop (length p) (c # cs))
      else case split_once_str p cs of None \<Rightarrow> None | Some (a, b) \<Rightarrow> Some (c # a, b))"

definition reset_dir :: "string \<Rightarrow> TrafficStats \<Rightarrow> TrafficStats" where
  "reset_dir name s = (if ends_with name ''uplink'' then s\<lparr>ts_uplink := 0\<rparr> else s\<lparr>ts_downlink := 0\<rparr>)"

definition reset_stat_name :: "string \<Rightarrow> ConnectionManager \<Rightarrow> ConnectionManager" where
  "reset_stat_name name cm =
     (if name = ''global>>>uplink'' then cm\<lparr>cm_global := (cm_global cm)\<lparr>ts_uplink := 0\<rparr>\<rparr>
      else if name = ''global>>>downlink'' then cm\<lparr>cm_global := (cm_global cm)\<lparr>ts_downlink := 0\<rparr>\<rparr>
      else case strip_prefix ''inbound>>>'' name of
        Some rest \<Rightarrow>
          (case split_once_str ''>>>traffic>>>'' rest of
             None \<Rightarrow> cm
           | Some (tag, _) \<Rightarrow> cm\<lparr>cm_by_inbound := upd_stats tag (reset_dir name) (cm_by_inbound cm)\<rparr>)
      | None \<Rightarrow>
      case strip_prefix ''outbound>>>'' name of
        Some rest \<Rightarrow>
          (case split_once_str ''>>>traffic>>>'' rest of
             None \<Rightarrow> cm
           | Some (tag, _) \<Rightarrow> cm\<lparr>cm_by_outbound := upd_stats tag (reset_dir name) (cm_by_outbound cm)\<rparr>)
      | None \<Rightarrow>
      case strip_prefix ''user>>>'' name of
        Some rest \<Rightarrow>
          (case split_once_str ''>>>traffic>>>'' rest of
             None \<Rightarrow> cm
           | Some (user, _) \<Rightarrow> cm\<lparr>
               cm_by_user := upd_stats user (reset_dir name) (cm_by_user cm),
               cm_users := upd_runtime user (\<lambda>rt. if ends_with name ''uplink'' then rt\<lparr>rt_uplink := 0\<rparr> else rt\<lparr>rt_downlink := 0\<rparr>)
                 (runtime user (cm_users cm))\<rparr>)
      | None \<Rightarrow> cm)"

definition query_v2ray_stats :: "string \<Rightarrow> bool \<Rightarrow> ConnectionManager \<Rightarrow> (string \<times> u64) list \<times> ConnectionManager" where
  "query_v2ray_stats pattern reset cm =
     (let (entries, cm) = v2ray_stat_entries cm;
          matched = (if pattern = [] then entries else filter (\<lambda>(name, _). contains name pattern) entries) in
      (matched, if reset then fold (\<lambda>(name, _). reset_stat_name name) matched cm else cm))"

subsection \<open>Connections\<close>

definition track :: "u64 \<Rightarrow> string \<Rightarrow> string \<Rightarrow> string \<Rightarrow> SocketAddr option \<Rightarrow> SocketAddr option \<Rightarrow> string option \<Rightarrow>
    string option \<Rightarrow> ConnectionManager \<Rightarrow> u64 \<times> ConnectionManager" where
  "track now itag otag network source destination domain user cm =
     (let cid = cm_next_id cm in
      (cid, cm\<lparr>cm_next_id := cid + 1, cm_total := cm_total cm + 1,
         cm_active := AList.update cid \<lparr>ci_id = cid, ci_inbound_tag = itag, ci_outbound_tag = otag, ci_network = network,
           ci_source = source, ci_destination = destination, ci_domain = domain, ci_user = user,
           ci_started_at = now\<rparr> (cm_active cm)\<rparr>))"

definition connection_info :: "ConnectionManager \<Rightarrow> u64 \<Rightarrow> (string \<times> string \<times> string option) option" where
  "connection_info cm cid =
     map_option (\<lambda>c. (ci_inbound_tag c, ci_outbound_tag c, ci_user c)) (map_of (cm_active cm) cid)"

definition untrack :: "u64 \<Rightarrow> ConnectionManager \<Rightarrow> ConnectionManager" where
  "untrack cid cm = cm\<lparr>cm_active := AList.delete cid (cm_active cm)\<rparr>"

definition active_count :: "ConnectionManager \<Rightarrow> nat" where
  "active_count cm = length (cm_active cm)"

definition connection_list :: "ConnectionManager \<Rightarrow> ConnectionInfo list" where
  "connection_list cm = map snd (cm_active cm)"

definition resolve_user :: "ConnectionManager \<Rightarrow> Uuid \<Rightarrow> UserRecord option" where
  "resolve_user cm uuid = lookup_uuid (cm_users cm) uuid"

definition reload_users :: "UserEnv \<Rightarrow> Options \<Rightarrow> ConnectionManager \<Rightarrow> ConnectionManager" where
  "reload_users env options cm = cm\<lparr>cm_users := reload_from_options env options (cm_users cm)\<rparr>"

subsection \<open>Relay sessions\<close>

record UserRelaySession =
  rs_inbound_tag :: string
  rs_outbound_tag :: string
  rs_user_name :: string
  rs_limits :: UserLimits
  rs_limiter :: bool
  rs_conn_id :: u64
  rs_guard :: bool

definition begin_tracked :: "nat \<Rightarrow> u64 \<Rightarrow> string \<Rightarrow> string \<Rightarrow> UserLimits \<Rightarrow> SocketAddr option \<Rightarrow> string option \<Rightarrow> bool \<Rightarrow>
    ConnectionManager \<Rightarrow> UserRelaySession \<times> ConnectionManager" where
  "begin_tracked now secs itag user_name limits destination domain guard cm =
     (let (limiter, cm) = user_limiter now user_name (ul_speed_bps limits) cm;
          (conn_id, cm) = track secs itag ''direct'' ''tcp'' None destination domain (Some user_name) cm in
      (\<lparr>rs_inbound_tag = itag, rs_outbound_tag = ''direct'', rs_user_name = user_name, rs_limits = limits,
        rs_limiter = limiter, rs_conn_id = conn_id, rs_guard = guard\<rparr>, cm))"

definition session_begin :: "nat \<Rightarrow> u64 \<Rightarrow> string \<Rightarrow> string \<Rightarrow> UserLimits \<Rightarrow> SocketAddr option \<Rightarrow> string option \<Rightarrow>
    ConnectionManager \<Rightarrow> UserRelaySession res \<times> ConnectionManager" where
  "session_begin now secs itag user_name limits destination domain cm =
     (case acquire_user user_name limits cm of
        (Inl e, cm) \<Rightarrow> (Inl e, cm)
      | (Inr _, cm) \<Rightarrow>
          (let (s, cm) = begin_tracked now secs itag user_name limits destination domain True cm in (Inr s, cm)))"

definition begin_muxed :: "nat \<Rightarrow> u64 \<Rightarrow> string \<Rightarrow> string \<Rightarrow> UserLimits \<Rightarrow> SocketAddr option \<Rightarrow> string option \<Rightarrow>
    ConnectionManager \<Rightarrow> UserRelaySession \<times> ConnectionManager" where
  "begin_muxed now secs itag user_name limits destination domain cm =
     begin_tracked now secs itag user_name limits destination domain False cm"

definition session_drop :: "UserRelaySession \<Rightarrow> ConnectionManager \<Rightarrow> ConnectionManager" where
  "session_drop s cm =
     (let cm = untrack (rs_conn_id s) cm in if rs_guard s then guard_drop (rs_user_name s) cm else cm)"

text \<open>The first \<open>n\<close> characters of a string in UTF-8.\<close>

fun take_chars :: "nat \<Rightarrow> string \<Rightarrow> string" where
  "take_chars 0 s = []"
| "take_chars (Suc n) [] = []"
| "take_chars (Suc n) (c # cs) =
     (let k = (if of_char c < (0x80 :: nat) then 0 else if of_char c < (0xE0 :: nat) then 1
               else if of_char c < (0xF0 :: nat) then 2 else 3) in
      c # take k cs @ take_chars n (drop k cs))"

definition user_or :: "UserRecord option \<Rightarrow> string \<Rightarrow> string \<times> UserLimits" where
  "user_or r name = (case r of Some r \<Rightarrow> (us_name r, us_limits r) | None \<Rightarrow> (name, UserLimits_default))"

definition begin_for_uuid :: "UserEnv \<Rightarrow> nat \<Rightarrow> u64 \<Rightarrow> string \<Rightarrow> Uuid \<Rightarrow> SocketAddr option \<Rightarrow> string option \<Rightarrow>
    ConnectionManager \<Rightarrow> UserRelaySession res \<times> ConnectionManager" where
  "begin_for_uuid env now secs itag uuid dest domain cm =
     (let (name, limits) = user_or (resolve_user cm uuid) (ue_show_uuid env uuid) in
      session_begin now secs itag name limits dest domain cm)"

definition begin_for_trojan_hash :: "nat \<Rightarrow> u64 \<Rightarrow> string \<Rightarrow> string \<Rightarrow> SocketAddr option \<Rightarrow> string option \<Rightarrow>
    ConnectionManager \<Rightarrow> UserRelaySession res \<times> ConnectionManager" where
  "begin_for_trojan_hash now secs itag hash dest domain cm =
     (let (name, limits) = user_or (lookup_trojan_hash (cm_users cm) hash) (take_chars 8 hash) in
      session_begin now secs itag name limits dest domain cm)"

definition begin_for_password :: "nat \<Rightarrow> u64 \<Rightarrow> string \<Rightarrow> string \<Rightarrow> SocketAddr option \<Rightarrow> string option \<Rightarrow>
    ConnectionManager \<Rightarrow> UserRelaySession res \<times> ConnectionManager" where
  "begin_for_password now secs itag password dest domain cm =
     (let (name, limits) = user_or (lookup_password (cm_users cm) password) (take_chars 8 password) in
      session_begin now secs itag name limits dest domain cm)"

definition begin_for_inbound :: "nat \<Rightarrow> u64 \<Rightarrow> string \<Rightarrow> SocketAddr option \<Rightarrow> string option \<Rightarrow>
    ConnectionManager \<Rightarrow> UserRelaySession option res \<times> ConnectionManager" where
  "begin_for_inbound now secs itag dest domain cm =
     (case first_for_inbound (cm_users cm) itag of
        None \<Rightarrow> (Inr None, cm)
      | Some rec \<Rightarrow>
          (let (r, cm) = session_begin now secs itag (us_name rec) (us_limits rec) dest domain cm in
           (bindR r (\<lambda>s. Inr (Some s)), cm)))"

text \<open>
  One direction of a relay. A pair of the list is what a read gives and what writing these bytes
  gives; the end of the list is the end of the stream. The result holds the time, the manager and
  the bytes that were written. \<open>None\<close> means that throttling did not come to an end within \<open>k\<close> rounds.
\<close>

definition session_throttle :: "nat \<Rightarrow> (nat \<Rightarrow> nat \<Rightarrow> nat) \<Rightarrow> UserRelaySession \<Rightarrow> nat \<Rightarrow> nat \<Rightarrow> ConnectionManager \<Rightarrow>
    (nat \<times> ConnectionManager) res option" where
  "session_throttle k sleep s n now cm =
     (case (if rs_limiter s then map_of (cm_limiters cm) (rs_user_name s) else None) of
        None \<Rightarrow> Some (Inr (now, cm))
      | Some lmt \<Rightarrow>
          map_option (\<lambda>r. bindR r (\<lambda>(now, lmt).
            Inr (now, cm\<lparr>cm_limiters := AList.update (rs_user_name s) lmt (cm_limiters cm)\<rparr>)))
            (throttle k sleep (of_nat n) now lmt))"

text \<open>One round of the loop: the end of the relay on the left, or the bytes that were written.\<close>

definition relay_chunk :: "nat \<Rightarrow> (nat \<Rightarrow> nat \<Rightarrow> nat) \<Rightarrow> UserRelaySession \<Rightarrow> bool \<Rightarrow> nat \<Rightarrow> bytes res \<Rightarrow> unit res \<Rightarrow>
    ConnectionManager \<Rightarrow> ((unit res + bytes) \<times> nat \<times> ConnectionManager) option" where
  "relay_chunk k sleep s uplink now rd wr cm =
     (case rd of
        Inl e \<Rightarrow> Some (Inl (Inl e), now, cm)
      | Inr buf \<Rightarrow>
          if buf = [] then Some (Inl (Inr ()), now, cm)
          else
            case user_quota_ok (rs_user_name s) (rs_limits s) cm of (quota_ok, cm) \<Rightarrow>
            if \<not> quota_ok then Some (Inl (Inr ()), now, cm)
            else
              case session_throttle k sleep s (length buf) now cm of
                None \<Rightarrow> None
              | Some (Inl e) \<Rightarrow> Some (Inl (Inl e), now, cm)
              | Some (Inr (now, cm)) \<Rightarrow>
                  (case wr of
                     Inl e \<Rightarrow> Some (Inl (Inl e), now, cm)
                   | Inr _ \<Rightarrow>
                       Some (Inr buf, now, record_traffic (rs_inbound_tag s) (rs_outbound_tag s)
                         (if uplink then of_nat (length buf) else 0) (if uplink then 0 else of_nat (length buf))
                         (Some (rs_user_name s)) cm)))"

fun relay_user_half :: "nat \<Rightarrow> (nat \<Rightarrow> nat \<Rightarrow> nat) \<Rightarrow> UserRelaySession \<Rightarrow> bool \<Rightarrow> nat \<Rightarrow> (bytes res \<times> unit res) list \<Rightarrow>
    ConnectionManager \<Rightarrow> bytes \<Rightarrow> (unit res \<times> nat \<times> ConnectionManager \<times> bytes) option" where
  "relay_user_half k sleep s uplink now [] cm out = Some (Inr (), now, cm, out)"
| "relay_user_half k sleep s uplink now ((rd, wr) # rest) cm out =
     (case relay_chunk k sleep s uplink now rd wr cm of
        None \<Rightarrow> None
      | Some (Inl result, now, cm) \<Rightarrow> Some (result, now, cm, out)
      | Some (Inr buf, now, cm) \<Rightarrow> relay_user_half k sleep s uplink now rest cm (out @ buf))"


section \<open>The connection limit of a user\<close>

lemma stats_of_upd [simp]: "stats_of (upd_stats k f m) j = (if j = k then f (stats_of m k) else stats_of m j)"
  by (simp add: upd_stats_def stats_of_def update_conv')

definition active_of :: "ConnectionManager \<Rightarrow> string \<Rightarrow> u64" where
  "active_of cm name = rt_active (runtime_of (cm_users cm) name)"

lemma acquire_check_ok:
  "fst (acquire_check name limits cm) = Inr () \<Longrightarrow> ul_max_connections limits = Some m \<Longrightarrow> active_of cm name < m"
  by (simp add: acquire_check_def Let_def active_of_def not_le split: if_splits)

lemma active_acquire_check [simp]: "active_of (snd (acquire_check name limits cm)) n = active_of cm n"
  by (simp add: acquire_check_def Let_def active_of_def)

lemma active_upd [simp]:
  "active_of (acquire_commit name cm) n = (if n = name then active_of cm n + 1 else active_of cm n)"
  "active_of (guard_drop name cm) n = (if n = name then active_of cm n - 1 else active_of cm n)"
  by (simp_all add: acquire_commit_def guard_drop_def upd_active_def active_of_def)

lemma active_acquire_user:
  "active_of (snd (acquire_user name limits cm)) n =
     (if n = name \<and> fst (acquire_user name limits cm) = Inr () then active_of cm n + 1 else active_of cm n)"
proof -
  obtain r c where c: "acquire_check name limits cm = (r, c)" by fastforce
  then have "active_of c n = active_of cm n" using active_acquire_check [of name limits cm n] by simp
  then show ?thesis using c by (cases r) (auto simp: acquire_user_def)
qed

lemma active_record_traffic [simp]: "active_of (record_traffic itag otag up down user cm) n = active_of cm n"
  by (auto simp: record_traffic_def Let_def active_of_def split: option.split)

lemma active_entries_same:
  "active_of (snd (active_entries names cm)) n = active_of cm n"
proof (induction names arbitrary: cm)
  case (Cons a names)
  have "active_of (snd (user_active_count a cm)) n = active_of cm n"
    by (simp add: user_active_count_def Let_def active_of_def)
  then show ?case using Cons by (simp add: Let_def split_def)
qed simp

lemma active_reset [simp]: "active_of (reset_stat_name name cm) n = active_of cm n"
  by (auto simp: reset_stat_name_def active_of_def split: option.split)

lemma v2ray_cm: "snd (v2ray_stat_entries cm) = snd (active_entries (user_names (cm_users cm)) cm)"
  by (cases "active_entries (user_names (cm_users cm)) cm") (simp add: v2ray_stat_entries_def)

lemma query_cm:
  "snd (query_v2ray_stats p r cm) =
     (if r then fold (\<lambda>(name, _). reset_stat_name name) (fst (query_v2ray_stats p r cm)) (snd (v2ray_stat_entries cm))
      else snd (v2ray_stat_entries cm))"
  by (cases "v2ray_stat_entries cm") (simp add: query_v2ray_stats_def Let_def)

lemma active_query: "active_of (snd (query_v2ray_stats p r cm)) n = active_of cm n"
proof -
  have "active_of (fold (\<lambda>(name, _). reset_stat_name name) es c) n = active_of c n" for es :: "(string \<times> u64) list" and c
    by (induction es arbitrary: c) auto
  then show ?thesis by (simp add: query_cm v2ray_cm active_entries_same)
qed

lemma active_reload [simp]: "active_of (reload_users env opts cm) n = active_of cm n"
  by (simp add: reload_users_def active_of_def runtime_of_def reload_from_options_def ingest_all_runtime)

lemma active_track [simp]:
  "active_of (snd (track t itag otag nw src dst host user cm)) n = active_of cm n"
  "active_of (untrack c cm) n = active_of cm n"
  by (simp_all add: track_def untrack_def Let_def active_of_def)

lemma unat_Suc_below: "(x :: u64) < m \<Longrightarrow> unat (x + 1) = Suc (unat x)"
  using unsigned_less [of m, where 'a = nat] by (simp add: unat_plus_if' word_less_nat_alt)

text \<open>
  Runs in which every acquisition is one step, with the number of guards of the user that are
  alive: the operations of any user, traffic, queries with or without reset, reloads and the
  tracking of connections.
\<close>

inductive session_step :: "string \<Rightarrow> UserLimits \<Rightarrow> ConnectionManager \<times> nat \<Rightarrow> ConnectionManager \<times> nat \<Rightarrow> bool"
  for name limits where
  acquired: "acquire_user name limits cm = (Inr (), cm') \<Longrightarrow> session_step name limits (cm, h) (cm', Suc h)"
| refused: "acquire_user name limits cm = (Inl e, cm') \<Longrightarrow> session_step name limits (cm, h) (cm', h)"
| dropped: "session_step name limits (cm, Suc h) (guard_drop name cm, h)"
| other_acquire: "other \<noteq> name \<Longrightarrow> session_step name limits (cm, h) (snd (acquire_user other l cm), h)"
| other_drop: "other \<noteq> name \<Longrightarrow> session_step name limits (cm, h) (guard_drop other cm, h)"
| traffic: "session_step name limits (cm, h) (record_traffic itag otag up down user cm, h)"
| query: "session_step name limits (cm, h) (snd (query_v2ray_stats p r cm), h)"
| reload: "session_step name limits (cm, h) (reload_users env opts cm, h)"
| tracked: "session_step name limits (cm, h) (snd (track t itag otag nw src dst host user cm), h)"
| untracked: "session_step name limits (cm, h) (untrack c cm, h)"

text \<open>
  C7: As long as acquisitions do not interleave, a user with a connection limit never has
  more sessions than the limit, and the counter is exactly the number of sessions that are alive,
  whatever else the manager does in between.
\<close>
theorem session_limit_kept:
  assumes "(session_step name limits)\<^sup>*\<^sup>* (cm, 0) (cm', h)" "active_of cm name = 0" "ul_max_connections limits = Some m"
  shows "unat (active_of cm' name) = h \<and> h \<le> unat m"
proof -
  have "unat (active_of (fst s) name) = snd s \<and> snd s \<le> unat m" if "(session_step name limits)\<^sup>*\<^sup>* (cm, 0) s" for s
    using that
  proof (induction rule: rtranclp_induct)
    case base
    then show ?case using assms(2) by simp
  next
    case (step s s')
    show ?case using step.hyps(2)
    proof (cases rule: session_step.cases)
      case (acquired c c' k)
      then have inv: "unat (active_of c name) = k" "k \<le> unat m" using step.IH by simp_all
      have lt: "active_of c name < m"
        using acquired(3) assms(3) acquire_check_ok [of name limits c m]
        by (cases "acquire_check name limits c"; cases "fst (acquire_check name limits c)") (simp_all add: acquire_user_def)
      have "active_of c' name = active_of c name + 1"
        using active_acquire_user [of name limits c name] acquired(3) by simp
      then show ?thesis using acquired(2) lt inv unat_Suc_below [OF lt] by (simp add: word_less_nat_alt)
    next
      case (refused c e c' k)
      then show ?thesis using active_acquire_user [of name limits c name] step.IH by simp
    next
      case (dropped c k)
      then have "active_of c name \<noteq> 0" using step.IH by auto
      then show ?thesis using dropped step.IH by (simp add: unat_minus_one)
    qed (use step.IH active_query in \<open>simp_all add: active_acquire_user active_track\<close>)
  qed
  from this [OF assms(1)] show ?thesis by simp
qed

theorem session_limit_kept_witness:
  "\<exists>cm'. (session_step ''u'' (UserLimits_default\<lparr>ul_max_connections := Some 1\<rparr>))\<^sup>*\<^sup>* (manager_new, 0) (cm', 1) \<and>
     unat (active_of cm' ''u'') = 1"
proof -
  let ?l = "UserLimits_default\<lparr>ul_max_connections := Some 1\<rparr>"
  let ?cm = "snd (acquire_user ''u'' ?l manager_new)"
  have z: "active_of manager_new ''u'' = 0"
    by (simp add: active_of_def manager_new_def with_registry_def registry_new_def runtime_of_def UserRuntime_default_def)
  have "fst (acquire_user ''u'' ?l manager_new) = Inr ()"
    using z by (simp add: acquire_user_def acquire_check_def Let_def UserLimits_default_def active_of_def)
  then have "acquire_user ''u'' ?l manager_new = (Inr (), ?cm)" by (simp add: prod_eq_iff)
  then have "(session_step ''u'' ?l)\<^sup>*\<^sup>* (manager_new, 0) (?cm, 1)"
    using session_step.acquired by (simp add: r_into_rtranclp)
  then show ?thesis using session_limit_kept [OF _ z, of ?l ?cm 1 1] by auto
qed

text \<open>Checks of several tasks before the first of them commits, and the commits after them.\<close>

fun check_all :: "nat \<Rightarrow> string \<Rightarrow> UserLimits \<Rightarrow> ConnectionManager \<Rightarrow> unit res list \<times> ConnectionManager" where
  "check_all 0 name limits cm = ([], cm)"
| "check_all (Suc n) name limits cm =
     (let (r, cm) = acquire_check name limits cm; (rs, cm) = check_all n name limits cm in (r # rs, cm))"

lemma check_same:
  "runtime_of (cm_users (snd (acquire_check name limits cm))) n = runtime_of (cm_users cm) n"
  by (simp add: acquire_check_def Let_def)

lemma acquire_check_cong:
  "runtime_of (cm_users cm) name = runtime_of (cm_users cm') name \<Longrightarrow>
     fst (acquire_check name limits cm) = fst (acquire_check name limits cm')"
  by (simp add: acquire_check_def Let_def split: option.split)

lemma check_all_replicate:
  "fst (check_all n name limits cm) = replicate n (fst (acquire_check name limits cm)) \<and>
   runtime_of (cm_users (snd (check_all n name limits cm))) name = runtime_of (cm_users cm) name"
proof (induction n arbitrary: cm)
  case (Suc n)
  let ?c = "snd (acquire_check name limits cm)"
  have "fst (acquire_check name limits ?c) = fst (acquire_check name limits cm)"
    by (rule acquire_check_cong) (rule check_same)
  then show ?case using Suc.IH [of ?c] by (simp add: Let_def split_def check_same)
qed simp

lemma commits_active: "active_of ((acquire_commit name ^^ n) cm) name = active_of cm name + of_nat n"
  by (induction n) (simp_all add: algebra_simps)

text \<open>
  C28: The check and the increment of an acquisition are two steps. If one task is admitted,
  any number of tasks that check before the first of them increments are admitted, and all
  of them hold a session in the end: the limit of a user does not bound the number of sessions.
\<close>
theorem concurrent_acquire_exceeds_limit:
  assumes "fst (acquire_check name limits cm) = Inr ()" "active_of cm name = 0" "n < 2 ^ 64"
  shows "fst (check_all n name limits cm) = replicate n (Inr ()) \<and>
    unat (active_of ((acquire_commit name ^^ n) (snd (check_all n name limits cm))) name) = n"
proof -
  have "active_of (snd (check_all n name limits cm)) name = 0"
    using assms(2) check_all_replicate by (simp add: active_of_def)
  then show ?thesis using assms check_all_replicate [of n name limits cm]
    by (simp add: commits_active unat_of_nat)
qed

theorem concurrent_acquire_exceeds_limit_witness:
  "ul_max_connections (UserLimits_default\<lparr>ul_max_connections := Some 1\<rparr>) = Some 1 \<and>
   unat (active_of ((acquire_commit ''u'' ^^ 5)
     (snd (check_all 5 ''u'' (UserLimits_default\<lparr>ul_max_connections := Some 1\<rparr>) manager_new))) ''u'') = 5"
proof -
  let ?l = "UserLimits_default\<lparr>ul_max_connections := Some 1\<rparr>"
  have z: "active_of manager_new ''u'' = 0"
    by (simp add: active_of_def manager_new_def with_registry_def registry_new_def runtime_of_def UserRuntime_default_def)
  have "fst (acquire_check ''u'' ?l manager_new) = Inr ()"
    using z by (simp add: acquire_check_def Let_def UserLimits_default_def active_of_def)
  from concurrent_acquire_exceeds_limit [OF this z, of 5] show ?thesis by simp
qed

end
