(* ===== verification/Session_Accounting.thy ===== *)
theory Session_Accounting
  imports Connection_Manager
begin

text \<open>What the counters hold after a relay, and how far a relay can exceed the quota of its user.\<close>

section \<open>Accounting\<close>

text \<open>The traffic the four kinds of counters hold for a session: uplink and downlink.\<close>

definition counters :: "UserRelaySession \<Rightarrow> ConnectionManager \<Rightarrow> (u64 \<times> u64) list" where
  "counters s cm = [snapshot (cm_global cm), snapshot (stats_of (cm_by_inbound cm) (rs_inbound_tag s)),
     snapshot (stats_of (cm_by_outbound cm) (rs_outbound_tag s)), snapshot (stats_of (cm_by_user cm) (rs_user_name s)),
     (rt_uplink (runtime_of (cm_users cm) (rs_user_name s)), rt_downlink (runtime_of (cm_users cm) (rs_user_name s)))]"

definition shift :: "u64 \<Rightarrow> u64 \<Rightarrow> (u64 \<times> u64) list \<Rightarrow> (u64 \<times> u64) list" where
  "shift up down = map (\<lambda>(u, d). (u + up, d + down))"

lemma counters_record:
  "counters s (record_traffic (rs_inbound_tag s) (rs_outbound_tag s) up down (Some (rs_user_name s)) cm) =
     shift up down (counters s cm)"
  by (simp add: counters_def shift_def record_traffic_def Let_def snapshot_def add_uplink_def add_downlink_def)

lemma counters_quota [simp]: "counters s (snd (user_quota_ok name limits cm)) = counters s cm"
  by (simp add: user_quota_ok_def counters_def Let_def split: option.split)

lemma counters_limiters [simp]: "counters s (cm\<lparr>cm_limiters := l\<rparr>) = counters s cm"
  by (simp add: counters_def)

lemma counters_throttle:
  "session_throttle k sleep s n now cm = Some (Inr (now', cm')) \<Longrightarrow> counters t cm' = counters t cm"
  by (auto simp: session_throttle_def bindR_eq_Inr_iff split: option.splits)

lemma shift_shift [simp]: "shift a b (shift c d xs) = shift (c + a) (d + b) xs"
  by (simp add: shift_def split_def)

lemma shift_0 [simp]: "shift 0 0 xs = xs"
  by (simp add: shift_def)

lemma quota_counters: "user_quota_ok name limits cm = (q, cm') \<Longrightarrow> counters s cm' = counters s cm"
  using counters_quota [of s name limits cm] by simp

lemma relay_chunk_end:
  "relay_chunk k sleep s uplink now rd wr cm = Some (Inl res, now', cm') \<Longrightarrow> counters s cm' = counters s cm"
  by (auto simp: relay_chunk_def quota_counters counters_throttle
    split: sum.splits if_splits prod.splits option.splits)

lemma relay_chunk_written:
  "relay_chunk k sleep s uplink now rd wr cm = Some (Inr buf, now', cm') \<Longrightarrow> rd = Inr buf \<and>
     counters s cm' = shift (if uplink then of_nat (length buf) else 0) (if uplink then 0 else of_nat (length buf)) (counters s cm)"
  by (auto simp: relay_chunk_def quota_counters counters_throttle counters_record
    split: sum.splits if_splits prod.splits option.splits)


definition sample_session :: UserRelaySession where
  "sample_session = \<lparr>rs_inbound_tag = ''in'', rs_outbound_tag = ''direct'', rs_user_name = ''u'',
     rs_limits = UserLimits_default\<lparr>ul_max_traffic_bytes := Some 3\<rparr>, rs_limiter = False, rs_conn_id = 1, rs_guard = True\<rparr>"

lemma sample_relay:
  "\<exists>cm'. relay_user_half 1 (+) sample_session True 0 [(Inr [1, 2], Inr ()), (Inr [3, 4], Inr ()), (Inr [5], Inr ())] manager_new [] =
     Some (Inr (), 0, cm', [1, 2, 3, 4]) \<and> runtime_of (cm_users cm') ''u'' = \<lparr>rt_uplink = 4, rt_downlink = 0, rt_active = 0\<rparr>"
  by (simp add: relay_chunk_def sample_session_def user_quota_ok_def UserLimits_default_def session_throttle_def
    manager_new_def with_registry_def registry_new_def runtime_of_def UserRuntime_default_def runtime_total_def
    record_traffic_def Let_def runtime_def upd_runtime_def)


definition used :: "ConnectionManager \<Rightarrow> string \<Rightarrow> nat" where
  "used cm name = unat (rt_uplink (runtime_of (cm_users cm) name)) + unat (rt_downlink (runtime_of (cm_users cm) name))"

lemma relay_chunk_quota:
  assumes "relay_chunk k sleep s uplink now rd wr cm = Some (Inr buf, now', cm')" "ul_max_traffic_bytes (rs_limits s) = Some m"
  shows "runtime_total (runtime_of (cm_users cm) (rs_user_name s)) < m"
  using assms by (auto simp: relay_chunk_def user_quota_ok_def Let_def split: sum.splits if_splits)

lemma used_counters:
  "used cm (rs_user_name s) = (let (u, d) = last (counters s cm) in unat u + unat d)"
  by (simp add: used_def counters_def)

lemma last_shift: "xs \<noteq> [] \<Longrightarrow> last (shift a b xs) = (fst (last xs) + a, snd (last xs) + b)"
  by (simp add: shift_def last_map split_def)

lemma used_shift:
  assumes "counters s cm' = shift (if uplink then of_nat n else 0) (if uplink then 0 else of_nat n) (counters s cm)"
    and "used cm (rs_user_name s) + n < 2 ^ 64"
  shows "used cm' (rs_user_name s) = used cm (rs_user_name s) + n"
proof -
  obtain u d where ud: "last (counters s cm) = (u, d)" by fastforce
  have n: "unat (of_nat n :: u64) = n" using assms(2) by (simp add: unat_of_nat)
  have "unat u + unat d + n < 2 ^ 64" using assms(2) ud by (simp add: used_counters)
  then have "unat (u + of_nat n) = unat u + n" "unat (d + of_nat n) = unat d + n"
    using n by (simp_all add: unat_plus_if')
  moreover have "counters s cm \<noteq> []" by (simp add: counters_def)
  ultimately show ?thesis using ud by (simp add: used_counters assms(1) last_shift)
qed



end
