(* ===== verification/Stats_Query.thy ===== *)
theory Stats_Query
  imports Connection_Manager
begin

text \<open>Queries of the statistics that set the counters they report to zero.\<close>

section \<open>Queries that reset\<close>

definition stats_by :: "string \<Rightarrow> ConnectionManager \<Rightarrow> stats_map" where
  "stats_by kind cm =
     (if kind = ''inbound'' then cm_by_inbound cm else if kind = ''outbound'' then cm_by_outbound cm else cm_by_user cm)"

definition dir_value :: "string \<Rightarrow> TrafficStats \<Rightarrow> u64" where
  "dir_value dir s = (if dir = ''uplink'' then ts_uplink s else ts_downlink s)"

definition kinds :: "string set" where "kinds = {''inbound'', ''outbound'', ''user''}"

definition dirs :: "string set" where "dirs = {''uplink'', ''downlink''}"

text \<open>Tags without the character the names of the counters are built with.\<close>

definition plain :: "string \<Rightarrow> bool" where "plain t \<longleftrightarrow> CHR ''>'' \<notin> set t"

lemma split_once_plain: "plain t \<Longrightarrow> split_once_str ''>>>traffic>>>'' (t @ ''>>>traffic>>>'' @ d) = Some (t, d)"
  by (induction t) (auto simp: plain_def)

lemma split_once_active: "plain t \<Longrightarrow> split_once_str ''>>>traffic>>>'' (t @ ''>>>active'') = None"
  by (induction t) (auto simp: plain_def)

lemma first_sep: "plain t \<Longrightarrow> takeWhile (\<lambda>c. c \<noteq> CHR ''>'') (t @ CHR ''>'' # r) = t"
  by (induction t) (auto simp: plain_def)

lemma stat_name_inj:
  assumes "plain t" "plain t'" "k \<in> kinds" "k' \<in> kinds" "stat_name k t d = stat_name k' t' d'"
  shows "k = k' \<and> t = t' \<and> d = d'"
proof -
  have k: "plain k" "plain k'" using assms(3,4) by (auto simp: kinds_def plain_def)
  have "takeWhile (\<lambda>c. c \<noteq> CHR ''>'') (stat_name k t d) = takeWhile (\<lambda>c. c \<noteq> CHR ''>'') (stat_name k' t' d')"
    using assms(5) by simp
  then have "k = k'" using first_sep [OF k(1)] first_sep [OF k(2)] by (simp add: stat_name_def)
  then have e: "t @ ''>>>traffic>>>'' @ d = t' @ ''>>>traffic>>>'' @ d'" using assms(5) by (simp add: stat_name_def)
  then have "Some (t, d) = Some (t', d')" using split_once_plain assms(1,2) by metis
  then show ?thesis using \<open>k = k'\<close> by simp
qed

lemma ends_stat_name:
  "d \<in> dirs \<Longrightarrow> ends_with (stat_name k t d) ''uplink'' \<longleftrightarrow> d = ''uplink''"
  by (auto simp: dirs_def stat_name_def ends_with_def)

lemma dir_value_reset:
  "d \<in> dirs \<Longrightarrow> d' \<in> dirs \<Longrightarrow> dir_value d (reset_dir (stat_name k t d') s) = (if d = d' then 0 else dir_value d s)"
  by (auto simp: dir_value_def reset_dir_def ends_stat_name dirs_def)

lemma stat_name_prefixes:
  "stat_name ''inbound'' t d \<noteq> ''global>>>uplink''" "stat_name ''inbound'' t d \<noteq> ''global>>>downlink''"
  "stat_name ''outbound'' t d \<noteq> ''global>>>uplink''" "stat_name ''outbound'' t d \<noteq> ''global>>>downlink''"
  "stat_name ''user'' t d \<noteq> ''global>>>uplink''" "stat_name ''user'' t d \<noteq> ''global>>>downlink''"
  "strip_prefix ''inbound>>>'' (stat_name ''inbound'' t d) = Some (t @ ''>>>traffic>>>'' @ d)"
  "strip_prefix ''inbound>>>'' (stat_name ''outbound'' t d) = None"
  "strip_prefix ''outbound>>>'' (stat_name ''outbound'' t d) = Some (t @ ''>>>traffic>>>'' @ d)"
  "strip_prefix ''inbound>>>'' (stat_name ''user'' t d) = None"
  "strip_prefix ''outbound>>>'' (stat_name ''user'' t d) = None"
  "strip_prefix ''user>>>'' (stat_name ''user'' t d) = Some (t @ ''>>>traffic>>>'' @ d)"
  by (simp_all add: stat_name_def strip_prefix_def)

lemma reset_stat_by:
  assumes "plain t" "k \<in> kinds" "k' \<in> kinds"
  shows "stats_by k (reset_stat_name (stat_name k' t d) cm) =
    (if k = k' then upd_stats t (reset_dir (stat_name k' t d)) (stats_by k cm) else stats_by k cm)"
proof -
  note sp = split_once_plain [OF assms(1), of d]
  consider "k' = ''inbound''" | "k' = ''outbound''" | "k' = ''user''" using assms(3) by (auto simp: kinds_def)
  then show ?thesis
    using assms(2)
    by cases (auto simp only: reset_stat_name_def stat_name_prefixes sp option.case prod.case if_False kinds_def
      insert_iff empty_iff; simp add: stats_by_def)+
qed

lemma reset_stat_value:
  assumes "plain t" "plain t'" "k \<in> kinds" "k' \<in> kinds" "d \<in> dirs" "d' \<in> dirs"
  shows "dir_value d (stats_of (stats_by k (reset_stat_name (stat_name k' t' d') cm)) t) =
     (if stat_name k' t' d' = stat_name k t d then 0 else dir_value d (stats_of (stats_by k cm) t))"
proof -
  have "stat_name k' t' d' = stat_name k t d \<longleftrightarrow> k' = k \<and> t' = t \<and> d' = d"
    using stat_name_inj assms by blast
  then show ?thesis using dir_value_reset [OF assms(5,6)] by (auto simp: reset_stat_by [OF assms(2-4)])
qed

lemma reset_other_value:
  assumes "n = ''global>>>uplink'' \<or> n = ''global>>>downlink'' \<or> (\<exists>u. plain u \<and> n = ''user>>>'' @ u @ ''>>>active'')"
  shows "stats_by k (reset_stat_name n cm) = stats_by k cm"
proof -
  consider "n = ''global>>>uplink''" | "n = ''global>>>downlink''" | u where "plain u" "n = ''user>>>'' @ u @ ''>>>active''"
    using assms by blast
  then show ?thesis
  proof cases
    case 3
    have "n \<noteq> ''global>>>uplink''" "n \<noteq> ''global>>>downlink''" "strip_prefix ''inbound>>>'' n = None"
      "strip_prefix ''outbound>>>'' n = None" "strip_prefix ''user>>>'' n = Some (u @ ''>>>active'')"
      by (simp_all add: 3(2) strip_prefix_def)
    then have "reset_stat_name n cm = cm"
      by (simp only: reset_stat_name_def split_once_active [OF 3(1)] option.case if_False)
    then show ?thesis by simp
  qed (simp_all add: reset_stat_name_def stats_by_def)
qed

definition stat_key :: "string \<Rightarrow> bool" where
  "stat_key n \<longleftrightarrow> (\<exists>k \<in> kinds. \<exists>d \<in> dirs. \<exists>t. plain t \<and> n = stat_name k t d)"

definition other_key :: "string \<Rightarrow> bool" where
  "other_key n \<longleftrightarrow> n = ''global>>>uplink'' \<or> n = ''global>>>downlink'' \<or> (\<exists>u. plain u \<and> n = ''user>>>'' @ u @ ''>>>active'')"

lemma other_not_stat:
  assumes "other_key n" "plain t" "k \<in> kinds"
  shows "n \<noteq> stat_name k t d"
proof
  assume e: "n = stat_name k t d"
  consider "k = ''inbound''" | "k = ''outbound''" | "k = ''user''" using assms(3) by (auto simp: kinds_def)
  then show False
  proof cases
    case 3
    have "n \<noteq> ''global>>>uplink''" "n \<noteq> ''global>>>downlink''" unfolding e 3 by (rule stat_name_prefixes)+
    then obtain u where u: "plain u" "n = ''user>>>'' @ u @ ''>>>active''" using assms(1) by (auto simp: other_key_def)
    then have "u @ ''>>>active'' = t @ ''>>>traffic>>>'' @ d" using e 3 by (simp add: stat_name_def)
    then show False using split_once_active [OF u(1)] split_once_plain [OF assms(2), of d] by simp
  qed (use assms(1) e in \<open>auto simp: other_key_def stat_name_def\<close>)
qed

lemma fold_reset_value:
  assumes "\<forall>n \<in> fst ` set es. stat_key n \<or> other_key n" "plain t" "k \<in> kinds" "d \<in> dirs"
  shows "dir_value d (stats_of (stats_by k (fold (\<lambda>(name, _). reset_stat_name name) es c)) t) =
     (if stat_name k t d \<in> fst ` set es then 0 else dir_value d (stats_of (stats_by k c) t))"
  using assms(1)
proof (induction es arbitrary: c)
  case (Cons e es)
  let ?v = "\<lambda>c. dir_value d (stats_of (stats_by k c) t)"
  have "?v (reset_stat_name (fst e) c) = (if fst e = stat_name k t d then 0 else ?v c)"
  proof (cases "stat_key (fst e)")
    case True
    then obtain k' t' d' where "k' \<in> kinds" "d' \<in> dirs" "plain t'" "fst e = stat_name k' t' d'" by (auto simp: stat_key_def)
    then show ?thesis using reset_stat_value assms(2-4) by simp
  next
    case False
    then have "other_key (fst e)" using Cons.prems by auto
    then show ?thesis using reset_other_value other_not_stat assms(2,3) by (simp add: other_key_def)
  qed
  then show ?case using Cons by (auto simp: split_def)
qed simp

lemma stats_by_active: "stats_by k (snd (active_entries names cm)) = stats_by k cm"
proof (induction names arbitrary: cm)
  case (Cons a names)
  have "stats_by k (snd (user_active_count a cm)) = stats_by k cm"
    by (simp add: user_active_count_def Let_def stats_by_def)
  then show ?case using Cons by (simp add: Let_def split_def)
qed simp

lemma active_entries_names:
  "n \<in> fst ` set (fst (active_entries names cm)) \<Longrightarrow> \<exists>u \<in> set names. n = ''user>>>'' @ u @ ''>>>active''"
  by (induction names arbitrary: cm) (auto simp: Let_def split_def split: if_splits)

lemma stats_entries_iff:
  "(n, v) \<in> set (stats_entries k m) \<longleftrightarrow> (\<exists>(t, s) \<in> set m. \<exists>d \<in> dirs. n = stat_name k t d \<and> v = dir_value d s)"
  by (auto simp: stats_entries_def dirs_def dir_value_def)

lemma v2ray_entries:
  "fst (v2ray_stat_entries cm) =
     [(''global>>>uplink'', ts_uplink (cm_global cm)), (''global>>>downlink'', ts_downlink (cm_global cm))] @
       stats_entries ''inbound'' (stats_by ''inbound'' cm) @ stats_entries ''outbound'' (stats_by ''outbound'' cm) @
       stats_entries ''user'' (stats_by ''user'' cm) @ fst (active_entries (user_names (cm_users cm)) cm)"
  by (cases "active_entries (user_names (cm_users cm)) cm") (simp add: v2ray_stat_entries_def stats_by_def)

lemma v2ray_entry:
  assumes "k \<in> kinds" "d \<in> dirs" "t \<in> fst ` set (stats_by k cm)"
  shows "(stat_name k t d, dir_value d (stats_of (stats_by k cm) t)) \<in> set (fst (v2ray_stat_entries cm))"
proof -
  obtain x where "map_of (stats_by k cm) t = Some x" using assms(3) by (metis map_of_eq_None_iff option.exhaust)
  then have "(t, stats_of (stats_by k cm) t) \<in> set (stats_by k cm)" by (simp add: stats_of_def map_of_SomeD)
  then have "(stat_name k t d, dir_value d (stats_of (stats_by k cm) t)) \<in> set (stats_entries k (stats_by k cm))"
    using assms(2) by (force simp: stats_entries_iff)
  then show ?thesis using assms(1) by (auto simp: v2ray_entries kinds_def)
qed

lemma query_matched:
  "fst (query_v2ray_stats p r cm) =
     (if p = [] then fst (v2ray_stat_entries cm) else filter (\<lambda>(n, _). contains n p) (fst (v2ray_stat_entries cm)))"
  by (cases "v2ray_stat_entries cm") (simp add: query_v2ray_stats_def Let_def)

lemma v2ray_keys:
  assumes "\<forall>kind \<in> kinds. \<forall>e \<in> set (stats_by kind cm). plain (fst e)" "\<forall>u \<in> set (user_names (cm_users cm)). plain u"
    and "e \<in> set (fst (v2ray_stat_entries cm))"
  shows "stat_key (fst e) \<or> other_key (fst e)"
proof -
  have "fst e \<in> {''global>>>uplink'', ''global>>>downlink''} \<or> (\<exists>kind \<in> kinds. e \<in> set (stats_entries kind (stats_by kind cm))) \<or>
      e \<in> set (fst (active_entries (user_names (cm_users cm)) cm))"
    using assms(3) unfolding v2ray_entries kinds_def by auto
  then consider "fst e \<in> {''global>>>uplink'', ''global>>>downlink''}"
    | kind where "kind \<in> kinds" "e \<in> set (stats_entries kind (stats_by kind cm))"
    | "e \<in> set (fst (active_entries (user_names (cm_users cm)) cm))" by blast
  then show ?thesis
  proof cases
    case 2
    then obtain x y d where x: "(x, y) \<in> set (stats_by kind cm)" "d \<in> dirs" "fst e = stat_name kind x d"
      by (cases e) (auto simp: stats_entries_iff)
    then have "plain x" using assms(1) 2(1) by fastforce
    then have "stat_key (fst e)" unfolding stat_key_def using 2(1) x(2,3) by blast
    then show ?thesis ..
  next
    case 3
    then obtain u where "u \<in> set (user_names (cm_users cm))" "fst e = ''user>>>'' @ u @ ''>>>active''"
      using active_entries_names [of "fst e"] by blast
    then show ?thesis using assms(2) by (auto simp: other_key_def)
  qed (auto simp: other_key_def)
qed



definition sample_manager :: ConnectionManager where
  "sample_manager = record_traffic ''in'' ''direct'' 5 7 None manager_new"


end
