(* ===== verification/Outbound_Groups.thy ===== *)
theory Outbound_Groups
  imports Config Rust_Net
begin

text \<open>
  Outbound groups (\<^verbatim>\<open>rsb-protocol/src/group.rs\<close>, \<^verbatim>\<open>fallback.rs\<close>, \<^verbatim>\<open>urltest.rs\<close>, \<^verbatim>\<open>duration.rs\<close>) and
  the construction of all outbounds (\<^verbatim>\<open>build.rs\<close>, \<^verbatim>\<open>registry.rs\<close>, the first part of \<^verbatim>\<open>RsBox::new\<close>). The
  outbounds live in a list; a handle to the shared state of a group is the position of the
  group in it. How an outbound that is not a group dials is the parameter \<open>leaf\<close>: the position, the
  destination, the domain and the instant give the reply and how long it takes, or no reply at all.
  Groups dial other outbounds, groups included, so dialling runs on fuel: \<open>None\<close> means that
  the nesting of the calls is deeper than the fuel. Times are in nanoseconds.
\<close>

section \<open>Definitions\<close>

subsection \<open>Durations\<close>

definition U64_MAX :: nat where "U64_MAX = 2 ^ 64 - 1"

definition parse_duration_str :: "string \<Rightarrow> nat option" where
  "parse_duration_str s =
     (let s = trim s; secs = (\<lambda>n. n * 10 ^ 9) in
      case strip_suffix ''ms'' s of
        Some ms \<Rightarrow> map_option (\<lambda>n. n * 10 ^ 6) (parse_uint U64_MAX ms)
      | None \<Rightarrow>
      case strip_suffix ''s'' s of
        Some x \<Rightarrow> map_option secs (parse_uint U64_MAX x)
      | None \<Rightarrow>
      case strip_suffix ''m'' s of
        Some x \<Rightarrow> map_option (\<lambda>m. secs (m * 60 mod 2 ^ 64)) (parse_uint U64_MAX x)
      | None \<Rightarrow>
      case strip_suffix ''h'' s of
        Some x \<Rightarrow> map_option (\<lambda>h. secs (h * 3600 mod 2 ^ 64)) (parse_uint U64_MAX x)
      | None \<Rightarrow> map_option secs (parse_uint U64_MAX s))"

subsection \<open>Selectors\<close>

fun position :: "'a \<Rightarrow> 'a list \<Rightarrow> nat option" where
  "position x [] = None"
| "position x (y # ys) = (if y = x then Some 0 else map_option Suc (position x ys))"

definition child_tags :: "Value \<Rightarrow> string list" where
  "child_tags raw = (case get_array raw ''outbounds'' of Some arr \<Rightarrow> List.map_filter as_str arr | None \<Rightarrow> [])"

text \<open>The child at an index, or else the first one.\<close>

definition get_or_first :: "'a list \<Rightarrow> nat \<Rightarrow> 'a option" where
  "get_or_first xs i = (if i < length xs then Some (xs ! i) else case xs of [] \<Rightarrow> None | x # _ \<Rightarrow> Some x)"

record SelectorOutbound =
  sl_tag :: string
  sl_outbounds :: "string list"
  sl_selected :: nat

definition selector_new :: "string \<Rightarrow> Value \<Rightarrow> SelectorOutbound" where
  "selector_new tag raw =
     (let outbounds = child_tags raw in
      \<lparr>sl_tag = tag, sl_outbounds = outbounds,
       sl_selected = (case Option.bind (get_str raw ''default'') (\<lambda>d. position d outbounds) of Some i \<Rightarrow> i | None \<Rightarrow> 0)\<rparr>)"

definition selector_selected :: "SelectorOutbound \<Rightarrow> string" where
  "selector_selected s = (case get_or_first (sl_outbounds s) (sl_selected s) of Some t \<Rightarrow> t | None \<Rightarrow> [])"

definition selector_select :: "string \<Rightarrow> SelectorOutbound \<Rightarrow> unit res \<times> SelectorOutbound" where
  "selector_select child s =
     (case position child (sl_outbounds s) of
        None \<Rightarrow> (Inl (Err (''outbound `'' @ child @ ''` not in selector `'' @ sl_tag s @ ''`'')), s)
      | Some i \<Rightarrow> (Inr (), s\<lparr>sl_selected := i\<rparr>))"

definition selector_child :: "SelectorOutbound \<Rightarrow> string res" where
  "selector_child s = with_context ''selector has no outbounds configured'' (get_or_first (sl_outbounds s) (sl_selected s))"

subsection \<open>Groups by latency\<close>

record UrlTestOutbound =
  ut_tag :: string
  ut_outbounds :: "string list"
  ut_url :: string
  ut_interval :: nat
  ut_selected :: nat
  ut_handle :: bool

definition urltest_new :: "string \<Rightarrow> Value \<Rightarrow> UrlTestOutbound" where
  "urltest_new tag raw =
     (let interval_secs =
        (case Option.bind (get_str raw ''interval'') (\<lambda>s.
            if ends_with s ''s'' then parse_uint U64_MAX (trim_end_char CHR ''s'' s) else parse_uint U64_MAX s) of
           Some n \<Rightarrow> n | None \<Rightarrow> 300) in
      \<lparr>ut_tag = tag, ut_outbounds = child_tags raw,
       ut_url = (case get_str raw ''url'' of Some u \<Rightarrow> u | None \<Rightarrow> ''https://www.gstatic.com/generate_204''),
       ut_interval = interval_secs * 10 ^ 9, ut_selected = 0, ut_handle = False\<rparr>)"

definition urltest_selected :: "UrlTestOutbound \<Rightarrow> string" where
  "urltest_selected u = (case get_or_first (ut_outbounds u) (ut_selected u) of Some t \<Rightarrow> t | None \<Rightarrow> [])"

definition urltest_child :: "UrlTestOutbound \<Rightarrow> string res" where
  "urltest_child u = with_context ''urltest has no outbounds configured'' (get_or_first (ut_outbounds u) (ut_selected u))"

text \<open>The task that \<^verbatim>\<open>start_probe\<close> spawns runs \<^verbatim>\<open>run_probe\<close> from time to time.\<close>

definition start_probe :: "UrlTestOutbound \<Rightarrow> UrlTestOutbound" where
  "start_probe u = (if ut_outbounds u = [] then u else u\<lparr>ut_handle := True\<rparr>)"

definition urltest_close :: "UrlTestOutbound \<Rightarrow> UrlTestOutbound" where
  "urltest_close u = u\<lparr>ut_handle := False\<rparr>"

subsection \<open>Fallback groups\<close>

definition DEFAULT_DIAL_TIMEOUT :: nat where "DEFAULT_DIAL_TIMEOUT = 5 * 10 ^ 9"

record FallbackPolicy =
  fp_outbounds :: "string list"
  fp_dial_timeout :: nat
  fp_warm_children :: bool

definition policy_from_raw :: "Value \<Rightarrow> FallbackPolicy res" where
  "policy_from_raw raw =
     (let outbounds = child_tags raw in
      if outbounds = [] then Inl (Err ''fallback: outbounds required'')
      else Inr
        \<lparr>fp_outbounds = outbounds,
         fp_dial_timeout = (case Option.bind (get_str raw ''dial_timeout'') parse_duration_str of
             Some d \<Rightarrow> d | None \<Rightarrow> DEFAULT_DIAL_TIMEOUT),
         fp_warm_children = (case Option.bind (json_get raw ''warm_children'') as_bool of Some b \<Rightarrow> b | None \<Rightarrow> True)\<rparr>)"

record FallbackState =
  fs_tag :: string
  fs_policy :: FallbackPolicy
  fs_active_idx :: nat

definition fallback_new :: "string \<Rightarrow> Value \<Rightarrow> FallbackState res" where
  "fallback_new tag raw =
     bindR (policy_from_raw raw) (\<lambda>policy. Inr \<lparr>fs_tag = tag, fs_policy = policy, fs_active_idx = 0\<rparr>)"

definition primary_tag :: "FallbackPolicy \<Rightarrow> string res" where
  "primary_tag p = idx (fp_outbounds p) 0"

definition fallback_selected :: "FallbackState \<Rightarrow> string res" where
  "fallback_selected s =
     bindR (primary_tag (fs_policy s)) (\<lambda>primary.
       Inr (if fs_active_idx s < length (fp_outbounds (fs_policy s))
            then fp_outbounds (fs_policy s) ! fs_active_idx s else primary))"

text \<open>
  \<^verbatim>\<open>on_failover\<close> loads the index and stores a larger one. The two accesses are separate atomic
  operations: \<open>failover_store\<close> decides by the index \<open>cur\<close> that was loaded before. The child is
  looked up once more for the log, which panics if the index is out of range.
\<close>

definition failover_store :: "nat \<Rightarrow> nat \<Rightarrow> FallbackState \<Rightarrow> unit res \<times> FallbackState" where
  "failover_store cur success_idx s =
     (if success_idx \<le> cur then (Inr (), s)
      else (bindR (idx (fp_outbounds (fs_policy s)) success_idx) (\<lambda>_. Inr ()), s\<lparr>fs_active_idx := success_idx\<rparr>))"

definition on_failover :: "nat \<Rightarrow> FallbackState \<Rightarrow> unit res \<times> FallbackState" where
  "on_failover success_idx s = failover_store (fs_active_idx s) success_idx s"

definition dial_order :: "FallbackState \<Rightarrow> nat list" where
  "dial_order s =
     (let n = length (fp_outbounds (fs_policy s)) in
      if n = 0 then [] else [min (fs_active_idx s) (n - 1)..<n])"

subsection \<open>All outbounds\<close>

datatype Outbound = Leaf string string | Selector SelectorOutbound | UrlTest UrlTestOutbound | Fallback FallbackState

fun ob_tag_of :: "Outbound \<Rightarrow> string" where
  "ob_tag_of (Leaf kind tag) = tag"
| "ob_tag_of (Selector s) = sl_tag s"
| "ob_tag_of (UrlTest u) = ut_tag u"
| "ob_tag_of (Fallback s) = fs_tag s"

fun ob_kind_of :: "Outbound \<Rightarrow> string" where
  "ob_kind_of (Leaf kind tag) = kind"
| "ob_kind_of (Selector s) = ''selector''"
| "ob_kind_of (UrlTest u) = ''urltest''"
| "ob_kind_of (Fallback s) = ''fallback''"

text \<open>
  The outbounds, the late-bound manager and the tables of the controller, which give for the tag
  of a group its position.
\<close>

record Outbounds =
  ow_obs :: "Outbound list"
  ow_shared :: "OutboundManager option"
  oc_selectors :: "(string \<times> nat) list"
  oc_urltests :: "(string \<times> nat) list"
  oc_fallbacks :: "(string \<times> nat) list"

definition outbounds_empty :: Outbounds where
  "outbounds_empty = \<lparr>ow_obs = [], ow_shared = None, oc_selectors = [], oc_urltests = [], oc_fallbacks = []\<rparr>"

definition LEAF_TYPES :: "string list" where
  "LEAF_TYPES = [''direct'', ''block'', ''hysteria2'', ''rsq'', ''rst'', ''dns'']"

definition push_outbound :: "Outbound \<Rightarrow> Outbounds \<Rightarrow> Outbounds" where
  "push_outbound ob w =
     (let i = length (ow_obs w); w = w\<lparr>ow_obs := ow_obs w @ [ob]\<rparr> in
      case ob of
        Leaf _ _ \<Rightarrow> w
      | Selector s \<Rightarrow> w\<lparr>oc_selectors := AList.update (sl_tag s) i (oc_selectors w)\<rparr>
      | UrlTest u \<Rightarrow> w\<lparr>oc_urltests := AList.update (ut_tag u) i (oc_urltests w)\<rparr>
      | Fallback s \<Rightarrow> w\<lparr>oc_fallbacks := AList.update (fs_tag s) i (oc_fallbacks w)\<rparr>)"

text \<open>\<open>leaf_new\<close> says whether an outbound that is not a group can be made from its options.\<close>

definition build_outbound :: "(string \<Rightarrow> string \<Rightarrow> Value \<Rightarrow> unit res) \<Rightarrow> OutboundCfg \<Rightarrow> string \<Rightarrow> Outbounds \<Rightarrow> Outbounds res" where
  "build_outbound leaf_new ob tag w =
     (let kind = ob_kind ob; raw = ob_raw ob in
      if kind \<in> set LEAF_TYPES then bindR (leaf_new kind tag raw) (\<lambda>_. Inr (push_outbound (Leaf kind tag) w))
      else if kind = ''selector'' then Inr (push_outbound (Selector (selector_new tag raw)) w)
      else if kind = ''urltest'' then Inr (push_outbound (UrlTest (urltest_new tag raw)) w)
      else if kind = ''fallback'' then bindR (fallback_new tag raw) (\<lambda>s. Inr (push_outbound (Fallback s) w))
      else Inl (Err (''unknown outbound type: '' @ kind)))"

fun build_loop :: "(string \<Rightarrow> string \<Rightarrow> Value \<Rightarrow> unit res) \<Rightarrow> (nat \<times> OutboundCfg) list \<Rightarrow> Outbounds \<Rightarrow> Outbounds res" where
  "build_loop leaf_new [] w = Inr w"
| "build_loop leaf_new ((i, ob) # obs) w =
     bindR (build_outbound leaf_new ob (outbound_tag ob i) w) (build_loop leaf_new obs)"

definition build_outbounds :: "(string \<Rightarrow> string \<Rightarrow> Value \<Rightarrow> unit res) \<Rightarrow> Options \<Rightarrow> Outbounds res" where
  "build_outbounds leaf_new opts =
     bindR (build_loop leaf_new (enumerate 0 (op_outbounds opts)) outbounds_empty) (\<lambda>w.
       if ow_obs w = [] then Inl (Err ''no outbounds configured'') else Inr w)"

definition engine_outbounds :: "(string \<Rightarrow> string \<Rightarrow> Value \<Rightarrow> unit res) \<Rightarrow> Options \<Rightarrow> Outbounds res" where
  "engine_outbounds leaf_new opts =
     bindR (default_outbound_tag opts) (\<lambda>default_tag.
     bindR (build_outbounds leaf_new opts) (\<lambda>w.
     bindR (outbound_manager_new (map ob_tag_of (ow_obs w)) default_tag) (\<lambda>om.
       Inr (w\<lparr>ow_shared := Some om\<rparr>))))"

definition shared_get :: "Outbounds \<Rightarrow> OutboundManager res" where
  "shared_get w = with_context ''outbound manager not initialized'' (ow_shared w)"

definition upd_ob :: "nat \<Rightarrow> Outbound \<Rightarrow> Outbounds \<Rightarrow> Outbounds" where
  "upd_ob i ob w = w\<lparr>ow_obs := (ow_obs w)[i := ob]\<rparr>"

subsection \<open>Dialling\<close>

datatype 'c reply = Reply nat "'c res" | NoReply

text \<open>A call that ends at an instant, or one that its deadline cuts off (or that never ends, without one).\<close>

datatype 'c dialled = Done nat "'c res" | Cut

definition in_time :: "nat \<Rightarrow> nat option \<Rightarrow> bool" where
  "in_time t deadline = (case deadline of None \<Rightarrow> True | Some d \<Rightarrow> t \<le> d)"

definition earlier :: "nat option \<Rightarrow> nat \<Rightarrow> nat option" where
  "earlier deadline t = (case deadline of None \<Rightarrow> Some t | Some d \<Rightarrow> Some (min d t))"

definition dial_leaf :: "'c reply \<Rightarrow> nat \<Rightarrow> nat option \<Rightarrow> 'c dialled" where
  "dial_leaf r now deadline =
     (case r of
        Reply d x \<Rightarrow> if in_time (now + d) deadline then Done (now + d) x else Cut
      | NoReply \<Rightarrow> Cut)"

definition timeout_error :: "bool \<Rightarrow> nat \<Rightarrow> string \<Rightarrow> error" where
  "timeout_error udp timeout tag =
     Err ((if udp then ''fallback: udp dial timeout '' else ''fallback: dial timeout '') @
       show_nat (timeout div 10 ^ 6) @ ''ms on `'' @ tag @ ''`'')"

definition all_failed :: "bool \<Rightarrow> error" where
  "all_failed udp = Err (if udp then ''fallback: all udp children failed'' else ''fallback: all children failed'')"

text \<open>
  The loop of \<^verbatim>\<open>dial_tcp_with_failover\<close> and \<^verbatim>\<open>dial_udp_with_failover\<close> for the fallback group at
  position \<open>i\<close>; \<open>dial\<close> is the call of a child. An unwinding panic of a child ends the loop.
\<close>

fun cascade ::
    "(nat \<Rightarrow> nat \<Rightarrow> nat option \<Rightarrow> Outbounds \<Rightarrow> ('c dialled \<times> Outbounds) option) \<Rightarrow> bool \<Rightarrow> nat \<Rightarrow> OutboundManager \<Rightarrow>
     FallbackPolicy \<Rightarrow> nat \<Rightarrow> error option \<Rightarrow> nat list \<Rightarrow> nat \<Rightarrow> nat option \<Rightarrow> Outbounds \<Rightarrow> ('c dialled \<times> Outbounds) option" where
  "cascade dial udp i om p active_before last_err [] now deadline w =
     Some (Done now (Inl (case last_err of Some e \<Rightarrow> e | None \<Rightarrow> all_failed udp)), w)"
| "cascade dial udp i om p active_before last_err (j # js) now deadline w =
     (case idx (fp_outbounds p) j of
        Inl e \<Rightarrow> Some (Done now (Inl e), w)
      | Inr tag \<Rightarrow>
          (case om_get om tag of
             Inl e \<Rightarrow> cascade dial udp i om p active_before (Some e) js now deadline w
           | Inr c \<Rightarrow>
               (let limit = now + fp_dial_timeout p in
                case dial c now (earlier deadline limit) w of
                  None \<Rightarrow> None
                | Some (Done t (Inr conn), w) \<Rightarrow>
                    (if j > active_before then
                       case ow_obs w ! i of
                         Fallback s \<Rightarrow>
                           (let (r, s) = on_failover j s in
                            Some (Done t (bindR r (\<lambda>_. Inr conn)), upd_ob i (Fallback s) w))
                       | _ \<Rightarrow> Some (Done t (Inr conn), w)
                     else Some (Done t (Inr conn), w))
                | Some (Done t (Inl e), w) \<Rightarrow>
                    (if is_Panic e then Some (Done t (Inl e), w)
                     else cascade dial udp i om p active_before (Some e) js t deadline w)
                | Some (Cut, w) \<Rightarrow>
                    (if in_time limit deadline
                     then cascade dial udp i om p active_before (Some (timeout_error udp (fp_dial_timeout p) tag)) js limit deadline w
                     else Some (Cut, w)))))"

definition dial_child ::
    "(nat \<Rightarrow> nat \<Rightarrow> nat option \<Rightarrow> Outbounds \<Rightarrow> ('c dialled \<times> Outbounds) option) \<Rightarrow> string res \<Rightarrow> nat \<Rightarrow> nat option \<Rightarrow>
     Outbounds \<Rightarrow> ('c dialled \<times> Outbounds) option" where
  "dial_child dial child now deadline w =
     (case bindR child (\<lambda>tag. bindR (shared_get w) (\<lambda>om. om_get om tag)) of
        Inl e \<Rightarrow> Some (Done now (Inl e), w)
      | Inr c \<Rightarrow> dial c now deadline w)"

fun dial ::
    "nat \<Rightarrow> (nat \<Rightarrow> SocketAddr \<Rightarrow> string option \<Rightarrow> nat \<Rightarrow> 'c reply) \<Rightarrow> bool \<Rightarrow> SocketAddr \<Rightarrow> string option \<Rightarrow> nat \<Rightarrow>
     nat \<Rightarrow> nat option \<Rightarrow> Outbounds \<Rightarrow> ('c dialled \<times> Outbounds) option" where
  "dial 0 leaf udp dest domain i now deadline w = None"
| "dial (Suc n) leaf udp dest domain i now deadline w =
     (case ow_obs w ! i of
        Leaf _ _ \<Rightarrow> Some (dial_leaf (leaf i dest domain now) now deadline, w)
      | Selector s \<Rightarrow> dial_child (dial n leaf udp dest domain) (selector_child s) now deadline w
      | UrlTest u \<Rightarrow>
          (let u = (if udp \<or> ut_handle u then u else start_probe u) in
           dial_child (dial n leaf udp dest domain) (urltest_child u) now deadline (upd_ob i (UrlTest u) w))
      | Fallback s \<Rightarrow>
          (case shared_get w of
             Inl e \<Rightarrow> Some (Done now (Inl e), w)
           | Inr om \<Rightarrow>
               cascade (dial n leaf udp dest domain) udp i om (fs_policy s) (fs_active_idx s) None (dial_order s) now deadline w))"

definition dial_tcp ::
    "nat \<Rightarrow> (nat \<Rightarrow> SocketAddr \<Rightarrow> string option \<Rightarrow> nat \<Rightarrow> 'c reply) \<Rightarrow> SocketAddr \<Rightarrow> string option \<Rightarrow> nat \<Rightarrow> nat \<Rightarrow>
     nat option \<Rightarrow> Outbounds \<Rightarrow> ('c dialled \<times> Outbounds) option" where
  "dial_tcp n leaf dest domain i now deadline w = dial n leaf False dest domain i now deadline w"

definition dial_udp ::
    "nat \<Rightarrow> (nat \<Rightarrow> SocketAddr \<Rightarrow> string option \<Rightarrow> nat \<Rightarrow> 'c reply) \<Rightarrow> SocketAddr \<Rightarrow> nat \<Rightarrow> nat \<Rightarrow>
     nat option \<Rightarrow> Outbounds \<Rightarrow> ('c dialled \<times> Outbounds) option" where
  "dial_udp n leaf dest i now deadline w = dial n leaf True dest None i now deadline w"

subsection \<open>Probes\<close>

text \<open>What the network does for a probe: the resolution of a name, the writing of a request and the first read.\<close>

record 'c ProbeNet =
  pn_resolve :: "string \<Rightarrow> nat \<Rightarrow> SocketAddr list reply"
  pn_write :: "'c \<Rightarrow> string \<Rightarrow> nat \<Rightarrow> unit reply"
  pn_read :: "'c \<Rightarrow> nat \<Rightarrow> bytes reply"

definition parse_probe_url :: "string \<Rightarrow> (string \<times> u16 \<times> string) res" where
  "parse_probe_url url =
     (let rest = (case strip_prefix ''https://'' url of Some r \<Rightarrow> r
            | None \<Rightarrow> (case strip_prefix ''http://'' url of Some r \<Rightarrow> r | None \<Rightarrow> url));
          (host_port, path) = (case split_once CHR ''/'' rest of Some x \<Rightarrow> x | None \<Rightarrow> (rest, ''/generate_204''));
          path = (if path = [] then ''/'' else CHR ''/'' # path) in
      case split_once CHR '':'' host_port of
        Some (h, p) \<Rightarrow>
          (case parse_uint 65535 p of
             None \<Rightarrow> Inl (Err ''probe port'')
           | Some port \<Rightarrow> Inr (h, of_nat port, path))
      | None \<Rightarrow> Inr (host_port, if starts_with url ''https://'' then 443 else 80, path))"

definition CRLF :: string where "CRLF = [CHR 0x0D, CHR 0x0A]"

definition probe_request :: "string \<Rightarrow> string \<Rightarrow> string" where
  "probe_request host path =
     ''GET '' @ path @ '' HTTP/1.1'' @ CRLF @ ''Host: '' @ host @ CRLF @ ''Connection: close'' @ CRLF @
     ''User-Agent: rsbox-urltest/1.0'' @ CRLF @ CRLF"

definition probe_status_ok :: "bytes \<Rightarrow> bool" where
  "probe_status_ok got =
     (let buf = got @ replicate (512 - length got) 0 in
      starts_with buf (as_bytes ''HTTP/1.1 204'') \<or> starts_with buf (as_bytes ''HTTP/1.0 204'') \<or>
      starts_with buf (as_bytes ''HTTP/1.1 200''))"

definition and_then :: "'a reply \<Rightarrow> nat \<Rightarrow> (nat \<Rightarrow> 'a \<Rightarrow> 'b dialled) \<Rightarrow> 'b dialled" where
  "and_then r now f =
     (case r of NoReply \<Rightarrow> Cut | Reply d (Inl e) \<Rightarrow> Done (now + d) (Inl e) | Reply d (Inr x) \<Rightarrow> f (now + d) x)"

text \<open>The request on the connection; the result is the time since \<open>start\<close>.\<close>

definition probe_exchange :: "'c ProbeNet \<Rightarrow> nat \<Rightarrow> string \<Rightarrow> nat \<Rightarrow> 'c \<Rightarrow> nat dialled" where
  "probe_exchange net start req now conn =
     and_then (pn_write net conn req now) now (\<lambda>t _.
       case pn_read net conn t of
         NoReply \<Rightarrow> Cut
       | Reply d r \<Rightarrow>
           (let got = (case r of Inr bs \<Rightarrow> take 512 bs | Inl _ \<Rightarrow> []) in
            Done (t + d)
              (if got = [] then Inl (Err ''empty probe response'')
               else if probe_status_ok got then Inr (t + d - start) else Inl (Err ''probe bad status''))))"

definition probe_latency ::
    "nat \<Rightarrow> (nat \<Rightarrow> SocketAddr \<Rightarrow> string option \<Rightarrow> nat \<Rightarrow> 'c reply) \<Rightarrow> 'c ProbeNet \<Rightarrow> nat \<Rightarrow> string \<Rightarrow> nat \<Rightarrow>
     Outbounds \<Rightarrow> (nat dialled \<times> Outbounds) option" where
  "probe_latency n leaf net i url start w =
     (case parse_probe_url url of
        Inl e \<Rightarrow> Some (Done start (Inl e), w)
      | Inr (host, port, path) \<Rightarrow>
          (let hp = host @ '':'' @ show_nat (unat port) in
           case and_then (pn_resolve net hp start) start (\<lambda>t addrs. Done t (Inr addrs)) of
             Cut \<Rightarrow> Some (Cut, w)
           | Done t (Inl e) \<Rightarrow> Some (Done t (Inl e), w)
           | Done t (Inr []) \<Rightarrow> Some (Done t (Inl (Err (''probe resolve '' @ hp))), w)
           | Done t (Inr (addr # _)) \<Rightarrow>
               (case dial n leaf False addr None i t None w of
                  None \<Rightarrow> None
                | Some (Cut, w) \<Rightarrow> Some (Cut, w)
                | Some (Done t (Inl e), w) \<Rightarrow> Some (Done t (Inl e), w)
                | Some (Done t (Inr conn), w) \<Rightarrow>
                    Some (probe_exchange net start (probe_request host path) t conn, w))))"

definition as_delay :: "nat \<Rightarrow> u32" where "as_delay d = of_nat (d div 10 ^ 6)"

fun probe_loop ::
    "nat \<Rightarrow> (nat \<Rightarrow> SocketAddr \<Rightarrow> string option \<Rightarrow> nat \<Rightarrow> 'c reply) \<Rightarrow> 'c ProbeNet \<Rightarrow> string \<Rightarrow> OutboundManager \<Rightarrow>
     string list \<Rightarrow> nat \<Rightarrow> Outbounds \<Rightarrow> ((string \<times> u32 option) list dialled \<times> Outbounds) option" where
  "probe_loop n leaf net url om [] now w = Some (Done now (Inr []), w)"
| "probe_loop n leaf net url om (tag # tags) now w =
     (case (case om_get om tag of Inl e \<Rightarrow> Some (Done now (Inl e), w) | Inr c \<Rightarrow> probe_latency n leaf net c url now w) of
        None \<Rightarrow> None
      | Some (Cut, w) \<Rightarrow> Some (Cut, w)
      | Some (Done t r, w) \<Rightarrow>
          (let delay = (case r of Inr d \<Rightarrow> Some (as_delay d) | Inl _ \<Rightarrow> None) in
           if panics r then Some (Done t (bindR r (\<lambda>_. Inr [])), w)
           else case probe_loop n leaf net url om tags t w of
             Some (Done t (Inr rs), w) \<Rightarrow> Some (Done t (Inr ((tag, delay) # rs)), w)
           | other \<Rightarrow> other))"

definition probe_all ::
    "nat \<Rightarrow> (nat \<Rightarrow> SocketAddr \<Rightarrow> string option \<Rightarrow> nat \<Rightarrow> 'c reply) \<Rightarrow> 'c ProbeNet \<Rightarrow> string list \<Rightarrow> string \<Rightarrow>
     nat \<Rightarrow> Outbounds \<Rightarrow> ((string \<times> u32 option) list dialled \<times> Outbounds) option" where
  "probe_all n leaf net outbounds url now w =
     (case shared_get w of
        Inl _ \<Rightarrow> Some (Done now (Inr []), w)
      | Inr om \<Rightarrow> probe_loop n leaf net url om outbounds now w)"

definition pick_best :: "(string \<times> u32 option) list \<Rightarrow> string option" where
  "pick_best delays =
     (case List.map_filter (\<lambda>(tag, d). map_option (\<lambda>ms. (tag, ms)) d) delays of
        [] \<Rightarrow> None
      | x # xs \<Rightarrow> Some (fst (fold (\<lambda>y best. if snd y < snd best then y else best) xs x)))"

fun best_loop :: "string list \<Rightarrow> nat \<Rightarrow> u32 \<Rightarrow> (string \<times> u32 option) list \<Rightarrow> nat \<times> (string \<times> u32) list" where
  "best_loop obs best_idx best_ms [] = (best_idx, [])"
| "best_loop obs best_idx best_ms ((tag, None) # rs) = best_loop obs best_idx best_ms rs"
| "best_loop obs best_idx best_ms ((tag, Some ms) # rs) =
     (let (best_idx, best_ms) =
        (if ms < best_ms then (case position tag obs of Some i \<Rightarrow> (i, ms) | None \<Rightarrow> (best_idx, best_ms))
         else (best_idx, best_ms));
          (best_idx, out) = best_loop obs best_idx best_ms rs in
      (best_idx, (tag, ms) # out))"

text \<open>A probe of the group at position \<open>i\<close>, made through a control with the children and the address of \<open>u\<close>.\<close>

definition store_best :: "nat \<Rightarrow> nat \<Rightarrow> Outbounds \<Rightarrow> Outbounds" where
  "store_best i best_idx w =
     (case ow_obs w ! i of UrlTest u \<Rightarrow> upd_ob i (UrlTest (u\<lparr>ut_selected := best_idx\<rparr>)) w | _ \<Rightarrow> w)"

definition run_probe ::
    "nat \<Rightarrow> (nat \<Rightarrow> SocketAddr \<Rightarrow> string option \<Rightarrow> nat \<Rightarrow> 'c reply) \<Rightarrow> 'c ProbeNet \<Rightarrow> nat \<Rightarrow> UrlTestOutbound \<Rightarrow> nat \<Rightarrow>
     Outbounds \<Rightarrow> ((string \<times> u32) list dialled \<times> Outbounds) option" where
  "run_probe n leaf net i u now w =
     (case probe_all n leaf net (ut_outbounds u) (ut_url u) now w of
        None \<Rightarrow> None
      | Some (Cut, w) \<Rightarrow> Some (Cut, w)
      | Some (Done t (Inl e), w) \<Rightarrow> Some (Done t (Inl e), w)
      | Some (Done t (Inr raw), w) \<Rightarrow>
          (let (best_idx, out) = best_loop (ut_outbounds u) 0 (- 1) raw in
           Some (Done t (Inr out), if out = [] then w else store_best i best_idx w)))"

subsection \<open>The controller\<close>

definition ctl_select :: "string \<Rightarrow> string \<Rightarrow> Outbounds \<Rightarrow> unit res \<times> Outbounds" where
  "ctl_select selector_tag child w =
     (case map_of (oc_selectors w) selector_tag of
        None \<Rightarrow> (Inl (Err ''selector not found''), w)
      | Some i \<Rightarrow>
          (case ow_obs w ! i of
             Selector s \<Rightarrow> (let (r, s) = selector_select child s in (r, upd_ob i (Selector s) w))
           | _ \<Rightarrow> (Inr (), w)))"

definition ctl_selected :: "string \<Rightarrow> Outbounds \<Rightarrow> string res option" where
  "ctl_selected group_tag w =
     (case map_of (oc_selectors w) group_tag of
        Some i \<Rightarrow> (case ow_obs w ! i of Selector s \<Rightarrow> Some (Inr (selector_selected s)) | _ \<Rightarrow> None)
      | None \<Rightarrow>
      case map_of (oc_urltests w) group_tag of
        Some i \<Rightarrow> (case ow_obs w ! i of UrlTest u \<Rightarrow> Some (Inr (urltest_selected u)) | _ \<Rightarrow> None)
      | None \<Rightarrow>
      case map_of (oc_fallbacks w) group_tag of
        Some i \<Rightarrow> (case ow_obs w ! i of Fallback s \<Rightarrow> Some (fallback_selected s) | _ \<Rightarrow> None)
      | None \<Rightarrow> None)"

definition run_url_test ::
    "nat \<Rightarrow> (nat \<Rightarrow> SocketAddr \<Rightarrow> string option \<Rightarrow> nat \<Rightarrow> 'c reply) \<Rightarrow> 'c ProbeNet \<Rightarrow> string \<Rightarrow> nat \<Rightarrow>
     Outbounds \<Rightarrow> ((string \<times> (string \<times> u32) list) dialled \<times> Outbounds) option" where
  "run_url_test n leaf net group_tag now w =
     (case map_of (oc_urltests w) group_tag of
        Some i \<Rightarrow>
          (case ow_obs w ! i of
             UrlTest u \<Rightarrow>
               (case run_probe n leaf net i u now w of
                  None \<Rightarrow> None
                | Some (Cut, w) \<Rightarrow> Some (Cut, w)
                | Some (Done t r, w) \<Rightarrow>
                    Some (Done t (bindR r (\<lambda>delays.
                      Inr (case ow_obs w ! i of UrlTest u \<Rightarrow> urltest_selected u | _ \<Rightarrow> [], delays))), w))
           | _ \<Rightarrow> Some (Done now (Inl (Err (''group not found: '' @ group_tag))), w))
      | None \<Rightarrow>
          (case map_of (oc_selectors w) group_tag of
             Some i \<Rightarrow> Some (Done now (Inr (case ow_obs w ! i of Selector s \<Rightarrow> selector_selected s | _ \<Rightarrow> [], [])), w)
           | None \<Rightarrow> Some (Done now (Inl (Err (''group not found: '' @ group_tag))), w)))"

definition restore_selectors :: "(string \<times> string) list \<Rightarrow> Outbounds \<Rightarrow> Outbounds" where
  "restore_selectors selectors w =
     fold (\<lambda>(group, child) w. if map_of (oc_selectors w) group = None then w else snd (ctl_select group child w)) selectors w"


section \<open>How the outbounds change\<close>

text \<open>
  An operation changes the choice of a selector, the choice and the probe task of a group by
  latency, and moves a fallback group down its list. Everything else stays; without \<open>ch\<close> the
  choices stay, too.
\<close>

fun grows :: "bool \<Rightarrow> Outbound \<Rightarrow> Outbound \<Rightarrow> bool" where
  "grows ch (Leaf k t) ob = (ob = Leaf k t)"
| "grows ch (Selector s) ob = (\<exists>x. ob = Selector (s\<lparr>sl_selected := x\<rparr>) \<and> (ch \<or> x = sl_selected s))"
| "grows ch (UrlTest u) ob =
     (\<exists>x h. ob = UrlTest (u\<lparr>ut_selected := x, ut_handle := h\<rparr>) \<and> (ch \<or> x = ut_selected u))"
| "grows ch (Fallback s) ob =
     (\<exists>x \<ge> fs_active_idx s. ob = Fallback (s\<lparr>fs_active_idx := x\<rparr>) \<and>
        (x = fs_active_idx s \<or> x < length (fp_outbounds (fs_policy s))))"

definition evolves :: "bool \<Rightarrow> Outbounds \<Rightarrow> Outbounds \<Rightarrow> bool" where
  "evolves ch w w' \<longleftrightarrow> (\<exists>obs. w' = w\<lparr>ow_obs := obs\<rparr> \<and> list_all2 (grows ch) (ow_obs w) obs)"

lemma grows_refl [simp]: "grows ch ob ob"
proof (cases ob)
  case (Selector s)
  then show ?thesis by (auto intro: exI [of _ "sl_selected s"])
next
  case (UrlTest u)
  then show ?thesis by (auto intro!: exI [of _ "ut_selected u"] exI [of _ "ut_handle u"])
next
  case (Fallback s)
  then show ?thesis by (auto intro: exI [of _ "fs_active_idx s"])
qed simp

lemma grows_FallbackI:
  "fs_active_idx s \<le> x \<Longrightarrow> x = fs_active_idx s \<or> x < length (fp_outbounds (fs_policy s)) \<Longrightarrow>
     grows ch (Fallback s) (Fallback (s\<lparr>fs_active_idx := x\<rparr>))"
  by (simp only: grows.simps) blast

lemma grows_UrlTestI: "grows ch (UrlTest u) (UrlTest (u\<lparr>ut_handle := h\<rparr>))"
  by (simp only: grows.simps) (intro exI [of _ "ut_selected u"] exI [of _ h], simp)

lemma grows_trans:
  assumes "grows ch a b" "grows ch b c"
  shows "grows ch a c"
proof (cases a)
  case (Fallback s)
  then obtain x where x: "fs_active_idx s \<le> x" "b = Fallback (s\<lparr>fs_active_idx := x\<rparr>)"
      "x = fs_active_idx s \<or> x < length (fp_outbounds (fs_policy s))"
    using assms(1) by auto
  then obtain y where y: "x \<le> y" "c = Fallback (s\<lparr>fs_active_idx := y\<rparr>)"
      "y = x \<or> y < length (fp_outbounds (fs_policy s))"
    using assms(2) by auto
  then show ?thesis using grows_FallbackI [of s y] x Fallback by auto
qed (use assms in auto)

lemma evolves_refl [simp]: "evolves ch w w"
  by (auto simp: evolves_def list_all2_refl intro!: exI [of _ "ow_obs w"])

lemma evolves_trans [trans]:
  assumes "evolves ch a b" "evolves ch b c"
  shows "evolves ch a c"
proof -
  obtain x y where "b = a\<lparr>ow_obs := x\<rparr>" "c = a\<lparr>ow_obs := y\<rparr>" "list_all2 (grows ch) (ow_obs a) x" "list_all2 (grows ch) x y"
    using assms by (auto simp: evolves_def)
  then show ?thesis
    using list_all2_trans [of "grows ch" "grows ch" "grows ch" "ow_obs a" x y] grows_trans by (auto simp: evolves_def)
qed

lemma evolves_upd_ob:
  assumes "i < length (ow_obs w) \<Longrightarrow> grows ch (ow_obs w ! i) ob"
  shows "evolves ch w (upd_ob i ob w)"
proof -
  have "list_all2 (grows ch) (ow_obs w) ((ow_obs w)[i := ob])"
    unfolding list_all2_conv_all_nth
  proof (intro conjI allI impI)
    fix k
    assume "k < length (ow_obs w)"
    then show "grows ch (ow_obs w ! k) ((ow_obs w)[i := ob] ! k)" using assms by (cases "k = i") simp_all
  qed simp
  then show ?thesis by (auto simp: evolves_def upd_ob_def)
qed

lemma evolves_nth: "evolves ch w w' \<Longrightarrow> i < length (ow_obs w) \<Longrightarrow> grows ch (ow_obs w ! i) (ow_obs w' ! i)"
  by (auto simp: evolves_def list_all2_nthD)

lemma evolves_same:
  "evolves ch w w' \<Longrightarrow> length (ow_obs w') = length (ow_obs w) \<and> ow_shared w' = ow_shared w \<and>
     oc_selectors w' = oc_selectors w \<and> oc_urltests w' = oc_urltests w \<and> oc_fallbacks w' = oc_fallbacks w"
  by (auto simp: evolves_def dest: list_all2_lengthD)

lemma grows_Fallback: "grows ch ob (Fallback s') \<Longrightarrow> \<exists>s. ob = Fallback s \<and> fs_policy s' = fs_policy s"
  by (cases ob) auto

definition has_policy :: "nat \<Rightarrow> FallbackPolicy \<Rightarrow> Outbounds \<Rightarrow> bool" where
  "has_policy i p w \<longleftrightarrow> (\<forall>s. i < length (ow_obs w) \<longrightarrow> ow_obs w ! i = Fallback s \<longrightarrow> fs_policy s = p)"

lemma has_policy_evolves: "has_policy i p w \<Longrightarrow> evolves ch w w' \<Longrightarrow> has_policy i p w'"
  unfolding has_policy_def
proof (intro allI impI)
  fix s'
  assume a: "\<forall>s. i < length (ow_obs w) \<longrightarrow> ow_obs w ! i = Fallback s \<longrightarrow> fs_policy s = p" "evolves ch w w'"
    "i < length (ow_obs w')" "ow_obs w' ! i = Fallback s'"
  then have i: "i < length (ow_obs w)" using evolves_same by simp
  then obtain s where "ow_obs w ! i = Fallback s" "fs_policy s' = fs_policy s"
    using evolves_nth [OF a(2) i] a(4) grows_Fallback [of ch] by auto
  then show "fs_policy s' = p" using a(1) i by simp
qed

lemma evolves_on_failover:
  assumes "ow_obs w ! i = Fallback s" "has_policy i p w" "on_failover j s = (r, s')" "j < length (fp_outbounds p)"
  shows "evolves ch w (upd_ob i (Fallback s') w)"
proof (rule evolves_upd_ob)
  assume "i < length (ow_obs w)"
  then have "j < length (fp_outbounds (fs_policy s))" using assms by (simp add: has_policy_def)
  then show "grows ch (ow_obs w ! i) (Fallback s')"
    using assms(1,3) grows_FallbackI [of s j]
    by (cases "j \<le> fs_active_idx s") (auto simp: on_failover_def failover_store_def simp del: grows.simps)
qed

lemma cascade_evolves:
  assumes call: "\<And>c now dl w r w'. call c now dl w = Some (r, w') \<Longrightarrow> evolves ch w w'"
  shows "cascade call udp i om p a last_err js now dl w = Some (r, w') \<Longrightarrow> has_policy i p w \<Longrightarrow> evolves ch w w'"
proof (induction js arbitrary: last_err now w)
  case (Cons j js)
  show ?case
  proof (cases "idx (fp_outbounds p) j")
    case (Inr tag)
    then have j: "j < length (fp_outbounds p)" by (simp add: idx_def split: if_splits)
    show ?thesis
    proof (cases "om_get om tag")
      case (Inr c)
      then obtain d w1 where d: "call c now (earlier dl (now + fp_dial_timeout p)) w = Some (d, w1)"
        using Cons.prems(1) \<open>idx (fp_outbounds p) j = Inr tag\<close> by (auto simp: Let_def split: option.splits)
      have e: "evolves ch w w1" by (rule call [OF d])
      have hp: "has_policy i p w1" by (rule has_policy_evolves [OF Cons.prems(2) e])
      note eq = Cons.prems(1) [simplified cascade.simps \<open>idx (fp_outbounds p) j = Inr tag\<close> Inr d sum.case option.case Let_def]
      have "evolves ch w1 w'"
      proof (cases d)
        case (Done t x)
        then show ?thesis
          using eq Cons.IH [OF _ hp] evolves_on_failover [OF _ hp _ j]
          by (cases x) (auto split: if_splits Outbound.splits prod.splits)
      next
        case Cut
        then show ?thesis using eq Cons.IH [OF _ hp] by (auto split: if_splits)
      qed
      then show ?thesis using e by (rule evolves_trans [rotated])
    qed (use Cons Inr in auto)
  qed (use Cons.prems in auto)
qed simp

lemma dial_child_evolves:
  assumes "\<And>c now dl w r w'. call c now dl w = Some (r, w') \<Longrightarrow> evolves ch w w'"
    and "dial_child call child now dl w = Some (r, w')"
  shows "evolves ch w w'"
  using assms by (auto simp: dial_child_def split: sum.splits)

lemma dial_evolves: "dial n leaf udp dest domain i now dl w = Some (r, w') \<Longrightarrow> evolves ch w w'"
proof (induction n arbitrary: i now dl w r w')
  case (Suc n)
  note IH = Suc.IH
  show ?case
  proof (cases "ow_obs w ! i")
    case (Selector s)
    then show ?thesis using Suc.prems dial_child_evolves [OF IH] by auto
  next
    case (UrlTest u)
    let ?u = "if udp \<or> ut_handle u then u else start_probe u"
    have "evolves ch w (upd_ob i (UrlTest ?u) w)"
      by (rule evolves_upd_ob) (simp add: UrlTest start_probe_def grows_UrlTestI del: grows.simps)
    also have "evolves ch (upd_ob i (UrlTest ?u) w) w'"
      using Suc.prems dial_child_evolves [OF IH] UrlTest by (auto simp: Let_def)
    finally show ?thesis .
  next
    case (Fallback s)
    then have "has_policy i (fs_policy s) w" by (simp add: has_policy_def)
    then show ?thesis using Suc.prems Fallback cascade_evolves [OF IH] by (auto split: sum.splits)
  qed (use Suc.prems in auto)
qed simp

lemma probe_latency_evolves: "probe_latency n leaf net i url start w = Some (r, w') \<Longrightarrow> evolves ch w w'"
  by (auto simp: probe_latency_def Let_def dest: dial_evolves
      split: sum.splits prod.splits dialled.splits list.splits option.splits)

lemma probe_loop_evolves: "probe_loop n leaf net url om tags now w = Some (r, w') \<Longrightarrow> evolves ch w w'"
proof (induction tags arbitrary: now w r)
  case (Cons tag tags)
  define first where "first = (case om_get om tag of Inl e \<Rightarrow> Some (Done now (Inl e), w) | Inr c \<Rightarrow> probe_latency n leaf net c url now w)"
  obtain d w1 where d: "first = Some (d, w1)"
    using Cons.prems by (cases first) (auto simp flip: first_def)
  have e: "evolves ch w w1"
    using d by (auto simp: first_def dest: probe_latency_evolves split: sum.splits)
  have "evolves ch w1 w'"
  proof (cases d)
    case (Done t x)
    then show ?thesis
      using Cons.prems Cons.IH [of t w1]
      by (auto simp: d first_def [symmetric] Let_def split: if_splits option.splits prod.splits dialled.splits sum.splits)
  next
    case Cut
    then show ?thesis using Cons.prems by (simp add: d first_def [symmetric])
  qed
  then show ?case using e by (rule evolves_trans [rotated])
qed simp

lemma store_best_evolves: "evolves True w (store_best i k w)"
proof (cases "ow_obs w ! i")
  case (UrlTest u)
  have "grows True (UrlTest u) (UrlTest (u\<lparr>ut_selected := k\<rparr>))"
    by (simp only: grows.simps) (intro exI [of _ k] exI [of _ "ut_handle u"], simp)
  then show ?thesis by (simp add: store_best_def UrlTest evolves_upd_ob del: grows.simps)
qed (simp_all add: store_best_def)

lemma run_probe_evolves:
  assumes "run_probe n leaf net i u now w = Some (r, w')"
  shows "evolves True w w'"
proof -
  obtain d w1 where d: "probe_all n leaf net (ut_outbounds u) (ut_url u) now w = Some (d, w1)"
    using assms by (auto simp: run_probe_def split: option.splits)
  then have "evolves True w w1"
    by (auto simp: probe_all_def dest: probe_loop_evolves split: sum.splits)
  moreover have "evolves True w1 w'"
    using assms d store_best_evolves
    by (auto simp: run_probe_def Let_def split: dialled.splits sum.splits prod.splits if_splits)
  ultimately show ?thesis by (rule evolves_trans)
qed

lemma ctl_select_evolves: "evolves True w (snd (ctl_select t c w))"
proof -
  have "evolves True w (upd_ob i (Selector (snd (selector_select c s))) w)" if "ow_obs w ! i = Selector s" for i s
    by (rule evolves_upd_ob)
      (auto simp: that selector_select_def split: option.split intro: exI [of _ "sl_selected s"])
  then show ?thesis
    by (auto simp: ctl_select_def split: option.split Outbound.split prod.split)
      (metis snd_conv)+
qed

lemma restore_evolves: "evolves True w (restore_selectors xs w)"
  unfolding restore_selectors_def
proof (induction xs arbitrary: w)
  case (Cons x xs)
  obtain g c where x: "x = (g, c)" by (cases x)
  let ?w = "if map_of (oc_selectors w) g = None then w else snd (ctl_select g c w)"
  have e: "evolves True w ?w" by (simp add: ctl_select_evolves)
  show ?case using evolves_trans [OF e Cons [of ?w]] by (simp add: x)
qed simp

text \<open>The operations on the outbounds of a running engine, one at a time.\<close>

inductive ob_step ::
    "(bool \<Rightarrow> nat \<Rightarrow> SocketAddr \<Rightarrow> string option \<Rightarrow> nat \<Rightarrow> 'c reply) \<Rightarrow> 'c ProbeNet \<Rightarrow> Outbounds \<Rightarrow> Outbounds \<Rightarrow> bool"
  for leaf net where
  step_dial: "dial n (leaf udp) udp dest domain i now dl w = Some (r, w') \<Longrightarrow> ob_step leaf net w w'"
| step_probe: "run_probe n (leaf False) net i u now w = Some (r, w') \<Longrightarrow> ob_step leaf net w w'"
| step_select: "ob_step leaf net w (snd (ctl_select t c w))"
| step_restore: "ob_step leaf net w (restore_selectors xs w)"
| step_close: "ow_obs w ! i = UrlTest u \<Longrightarrow> ob_step leaf net w (upd_ob i (UrlTest (urltest_close u)) w)"

lemma ob_step_evolves: "ob_step leaf net w w' \<Longrightarrow> evolves True w w'"
proof (induction rule: ob_step.induct)
  case (step_close w i u)
  then show ?case by (intro evolves_upd_ob) (simp add: urltest_close_def grows_UrlTestI del: grows.simps)
qed (simp_all add: dial_evolves run_probe_evolves ctl_select_evolves restore_evolves)

lemma ob_steps_evolve: "(ob_step leaf net)\<^sup>*\<^sup>* w w' \<Longrightarrow> evolves True w w'"
  by (induction rule: rtranclp_induct) (auto dest: ob_step_evolves intro: evolves_trans)

section \<open>Fallback groups only move down\<close>

text \<open>
  C35: Whatever is dialled, probed, selected and closed, one operation after the other and with
  groups nested in groups, a fallback group keeps its children and its position in the
  list never moves up; it stays within the list, and the children it will try are the tail
  of those it would have tried before.
\<close>
theorem fallback_never_moves_up:
  assumes "(ob_step leaf net)\<^sup>*\<^sup>* w w'" "i < length (ow_obs w)" "ow_obs w ! i = Fallback s"
    and "fs_active_idx s < length (fp_outbounds (fs_policy s))"
  shows "\<exists>s'. ow_obs w' ! i = Fallback s' \<and> fs_policy s' = fs_policy s \<and>
    fs_active_idx s \<le> fs_active_idx s' \<and> fs_active_idx s' < length (fp_outbounds (fs_policy s)) \<and>
    dial_order s' = drop (fs_active_idx s' - fs_active_idx s) (dial_order s)"
proof -
  obtain x where x: "fs_active_idx s \<le> x" "ow_obs w' ! i = Fallback (s\<lparr>fs_active_idx := x\<rparr>)"
      "x < length (fp_outbounds (fs_policy s))"
    using evolves_nth [OF ob_steps_evolve [OF assms(1)] assms(2)] assms(3,4) by auto
  then have "dial_order (s\<lparr>fs_active_idx := x\<rparr>) = drop (x - fs_active_idx s) (dial_order s)"
    using assms(4) by (auto simp: dial_order_def Let_def drop_upt min_def)
  then show ?thesis using x by auto
qed

text \<open>
  C36: Two connections that fail over at the same time can move the group up. Both load the
  index before either stores; the one that got through to the higher child stores last, and the
  group goes back to a child that had failed for the other connection.
\<close>
theorem concurrent_failover_moves_up:
  assumes "fs_active_idx s < a" "a < b" "b < length (fp_outbounds (fs_policy s))"
  shows "\<exists>s1 s2. failover_store (fs_active_idx s) b s = (Inr (), s1) \<and> fs_active_idx s1 = b \<and>
    failover_store (fs_active_idx s) a s1 = (Inr (), s2) \<and> fs_active_idx s2 = a \<and> fs_active_idx s2 < fs_active_idx s1 \<and>
    on_failover a s1 = (Inr (), s1)"
  using assms by (simp add: failover_store_def on_failover_def idx_def)

definition three_children :: FallbackState where
  "three_children = \<lparr>fs_tag = ''f'', fs_policy = \<lparr>fp_outbounds = [''a'', ''b'', ''c''], fp_dial_timeout = 50, fp_warm_children = True\<rparr>,
     fs_active_idx = 0\<rparr>"

theorem concurrent_failover_moves_up_witness:
  "\<exists>s1 s2. failover_store 0 2 three_children = (Inr (), s1) \<and> fs_active_idx s1 = 2 \<and>
    failover_store 0 1 s1 = (Inr (), s2) \<and> fs_active_idx s2 = 1"
  using concurrent_failover_moves_up [of three_children 1 2] by (auto simp: three_children_def)

section \<open>Nested groups: when does dialling return?\<close>

fun children :: "Outbound \<Rightarrow> string list" where
  "children (Leaf k t) = []"
| "children (Selector s) = sl_outbounds s"
| "children (UrlTest u) = ut_outbounds u"
| "children (Fallback s) = fp_outbounds (fs_policy s)"

text \<open>The manager knows the outbounds there are, and \<open>rk\<close> orders them so that children come before their groups.\<close>

definition managed :: "Outbounds \<Rightarrow> bool" where
  "managed w \<longleftrightarrow> (\<forall>om. ow_shared w = Some om \<longrightarrow> om_outbounds om = map ob_tag_of (ow_obs w))"

definition ranked :: "(nat \<Rightarrow> nat) \<Rightarrow> Outbounds \<Rightarrow> bool" where
  "ranked rk w \<longleftrightarrow> (\<forall>om i t c. ow_shared w = Some om \<longrightarrow> i < length (ow_obs w) \<longrightarrow> t \<in> set (children (ow_obs w ! i)) \<longrightarrow>
     om_get om t = Inr c \<longrightarrow> rk c < rk i)"

lemma grows_children: "grows ch a b \<Longrightarrow> children b = children a \<and> ob_tag_of b = ob_tag_of a"
  by (cases a) auto

lemma managed_evolves: "managed w \<Longrightarrow> evolves ch w w' \<Longrightarrow> managed w'"
proof -
  have "list_all2 (grows ch) xs ys \<Longrightarrow> map ob_tag_of ys = map ob_tag_of xs" for xs ys
    by (induction rule: list_all2_induct) (simp_all add: grows_children)
  then show "managed w \<Longrightarrow> evolves ch w w' \<Longrightarrow> managed w'" by (auto simp: managed_def evolves_def)
qed

lemma ranked_evolves:
  assumes "ranked rk w" "evolves ch w w'"
  shows "ranked rk w'"
  unfolding ranked_def
proof (intro allI impI)
  fix om i t c
  assume a: "ow_shared w' = Some om" "i < length (ow_obs w')" "t \<in> set (children (ow_obs w' ! i))" "om_get om t = Inr c"
  note same = evolves_same [OF assms(2)]
  then have "children (ow_obs w' ! i) = children (ow_obs w ! i)"
    using a(2) grows_children [of ch] evolves_nth [OF assms(2)] by simp
  then show "rk c < rk i" using assms(1) a same unfolding ranked_def by simp
qed

lemma om_get_managed: "managed w \<Longrightarrow> ow_shared w = Some om \<Longrightarrow> om_get om t = Inr c \<Longrightarrow> c < length (ow_obs w)"
  by (auto simp: managed_def om_get_def idx_def split: option.splits if_splits)

lemma selector_child_in: "selector_child s = Inr t \<Longrightarrow> t \<in> set (sl_outbounds s)"
  by (auto simp: selector_child_def with_context_def get_or_first_def split: if_splits option.splits list.splits)

lemma urltest_child_in: "urltest_child u = Inr t \<Longrightarrow> t \<in> set (ut_outbounds u)"
  by (auto simp: urltest_child_def with_context_def get_or_first_def split: if_splits option.splits list.splits)

lemma urltest_child_start_probe [simp]: "urltest_child (start_probe u) = urltest_child u"
  by (simp add: start_probe_def urltest_child_def)

lemma cascade_returns:
  assumes call: "\<And>tag c now dl w'. tag \<in> set (fp_outbounds p) \<Longrightarrow> om_get om tag = Inr c \<Longrightarrow>
      evolves ch w w' \<Longrightarrow> \<exists>r w''. call c now dl w' = Some (r, w'') \<and> evolves ch w' w''"
  shows "evolves ch w w1 \<Longrightarrow> cascade call udp i om p a last_err js now dl w1 \<noteq> None"
proof (induction js arbitrary: last_err now w1)
  case (Cons j js)
  note IH = Cons.IH
  show ?case
  proof (cases "idx (fp_outbounds p) j")
    case (Inr tag)
    note j = this
    show ?thesis
    proof (cases "om_get om tag")
      case (Inr c)
      obtain d w2 where d: "call c now (earlier dl (now + fp_dial_timeout p)) w1 = Some (d, w2)" "evolves ch w1 w2"
        using call [where now = now and dl = "earlier dl (now + fp_dial_timeout p)", OF _ Inr Cons.prems] j
        by (auto simp: idx_def split: if_splits)
      have e: "evolves ch w w2" by (rule evolves_trans [OF Cons.prems d(2)])
      show ?thesis
      proof (cases d)
        case (Done t x)
        then show ?thesis using IH [OF e] d j Inr
          by (cases x) (auto simp: Let_def split: Outbound.split prod.split)
      next
        case Cut
        then show ?thesis using IH [OF e] d j Inr by (simp add: Let_def)
      qed
    qed (use IH [OF Cons.prems] Inr in simp)
  qed simp
qed simp


definition demo :: Outbounds where
  "demo = \<lparr>ow_obs = [Leaf ''direct'' ''a'', Leaf ''rsq'' ''b'',
       Fallback \<lparr>fs_tag = ''f'', fs_policy = \<lparr>fp_outbounds = [''b'', ''a''], fp_dial_timeout = 50, fp_warm_children = True\<rparr>,
         fs_active_idx = 0\<rparr>,
       Selector \<lparr>sl_tag = ''s'', sl_outbounds = [''f'', ''a''], sl_selected = 0\<rparr>],
     ow_shared = Some \<lparr>om_outbounds = [''a'', ''b'', ''f'', ''s''], om_default_tag = ''s'',
       om_index = build_index [''a'', ''b'', ''f'', ''s'']\<rparr>,
     oc_selectors = [(''s'', 3)], oc_urltests = [], oc_fallbacks = [(''f'', 2)]\<rparr>"

definition demo_dest :: SocketAddr where "demo_dest = \<lparr>sa_ip = V4 1, sa_port = 80\<rparr>"

definition demo_leaf :: "nat \<Rightarrow> SocketAddr \<Rightarrow> string option \<Rightarrow> nat \<Rightarrow> unit reply" where
  "demo_leaf i dest domain now = (if i = 0 then Reply 7 (Inr ()) else NoReply)"

lemma demo_index: "build_index [''a'', ''b'', ''f'', ''s''] = [(''a'', 0), (''b'', 1), (''f'', 2), (''s'', 3)]"
  by (simp add: build_index_def)

text \<open>The selector dials the fallback group, which gives up on its first child after the timeout.\<close>

lemma demo_dial:
  "dial 3 demo_leaf False demo_dest None 3 0 None demo =
     Some (Done 57 (Inr ()), upd_ob 2 (Fallback \<lparr>fs_tag = ''f'', fs_policy = \<lparr>fp_outbounds = [''b'', ''a''], fp_dial_timeout = 50,
       fp_warm_children = True\<rparr>, fs_active_idx = 1\<rparr>) demo)"
  by (simp add: numeral_3_eq_3 demo_def demo_index demo_leaf_def selector_child_def with_context_def get_or_first_def
      dial_child_def shared_get_def om_get_def idx_def dial_order_def dial_leaf_def in_time_def earlier_def
      on_failover_def failover_store_def Let_def upt_rec)


theorem fallback_never_moves_up_witness:
  "\<exists>s'. ow_obs (upd_ob 2 (Fallback \<lparr>fs_tag = ''f'', fs_policy = \<lparr>fp_outbounds = [''b'', ''a''], fp_dial_timeout = 50,
       fp_warm_children = True\<rparr>, fs_active_idx = 1\<rparr>) demo) ! 2 = Fallback s' \<and> 0 \<le> fs_active_idx s' \<and> dial_order s' = [1]"
proof -
  obtain w' where w': "dial 3 demo_leaf False demo_dest None 3 0 None demo = Some (Done 57 (Inr ()), w')"
      "w' = upd_ob 2 (Fallback \<lparr>fs_tag = ''f'', fs_policy = \<lparr>fp_outbounds = [''b'', ''a''], fp_dial_timeout = 50,
         fp_warm_children = True\<rparr>, fs_active_idx = 1\<rparr>) demo"
    using demo_dial by blast
  have "(ob_step (\<lambda>_. demo_leaf) net)\<^sup>*\<^sup>* demo w'" for net
    using step_dial [of 3 "\<lambda>_. demo_leaf" False, OF w'(1)] by blast
  from fallback_never_moves_up [OF this, of 2 _] show ?thesis
    unfolding w'(2) by (auto simp: demo_def upd_ob_def dial_order_def Let_def)
qed

text \<open>The position of the current child of a selector or a group by latency.\<close>

definition chosen :: "Outbounds \<Rightarrow> nat \<Rightarrow> nat option" where
  "chosen w i =
     (case (case ow_obs w ! i of Selector s \<Rightarrow> selector_child s | UrlTest u \<Rightarrow> urltest_child u | _ \<Rightarrow> Inl (Err [])) of
        Inl _ \<Rightarrow> None
      | Inr t \<Rightarrow> (case bindR (shared_get w) (\<lambda>om. om_get om t) of Inl _ \<Rightarrow> None | Inr c \<Rightarrow> Some c))"

lemma chosen_start_probe:
  assumes "ow_obs w ! i = UrlTest u"
  shows "chosen (upd_ob i (UrlTest (if b then u else start_probe u)) w) k = chosen w k"
proof -
  define u' where "u' = (if b then u else start_probe u)"
  have u: "urltest_child u' = urltest_child u" by (simp add: u'_def)
  have s: "shared_get (upd_ob i (UrlTest u') w) = shared_get w" by (simp add: shared_get_def upd_ob_def)
  have "chosen (upd_ob i (UrlTest u') w) k = chosen w k"
  proof (cases "k = i \<and> i < length (ow_obs w)")
    case True
    then have "ow_obs (upd_ob i (UrlTest u') w) ! k = UrlTest u'" by (simp add: upd_ob_def)
    then show ?thesis using True assms u s by (cases "urltest_child u") (simp_all add: chosen_def)
  next
    case False
    then have "ow_obs (upd_ob i (UrlTest u') w) ! k = ow_obs w ! k" by (auto simp: upd_ob_def list_update_beyond)
    then show ?thesis unfolding chosen_def s by simp
  qed
  then show ?thesis by (simp only: u'_def)
qed

text \<open>
  C33: If the current choices of some groups lead to one another in a circle, dialling any of
  them never returns: the calls nest without end, whatever the network does. Validation accepts
  such a configuration and the engine builds its outbounds.
\<close>
theorem cyclic_choice_never_returns:
  assumes "\<forall>i \<in> S. \<exists>c \<in> S. chosen w i = Some c" "i \<in> S"
  shows "dial n leaf udp dest domain i now dl w = None"
  using assms
proof (induction n arbitrary: i now dl w)
  case (Suc n)
  then obtain c where c: "c \<in> S" "chosen w i = Some c" by blast
  show ?case
  proof (cases "ow_obs w ! i")
    case (Selector s)
    then obtain t where "selector_child s = Inr t" "bindR (shared_get w) (\<lambda>om. om_get om t) = Inr c"
      using c(2) by (auto simp: chosen_def split: sum.splits)
    then have "bindR (selector_child s) (\<lambda>tag. bindR (shared_get w) (\<lambda>om. om_get om tag)) = Inr c" by simp
    then show ?thesis using Selector Suc.IH [OF Suc.prems(1) c(1)] by (simp only: dial.simps dial_child_def Outbound.case sum.case)
  next
    case (UrlTest u)
    let ?b = "udp \<or> ut_handle u"
    let ?w = "upd_ob i (UrlTest (if ?b then u else start_probe u)) w"
    obtain t where t: "urltest_child u = Inr t" "bindR (shared_get w) (\<lambda>om. om_get om t) = Inr c"
      using UrlTest c(2) by (auto simp: chosen_def split: sum.splits)
    have "\<forall>i \<in> S. \<exists>c \<in> S. chosen ?w i = Some c" using Suc.prems(1) chosen_start_probe [OF UrlTest] by simp
    then have "dial n leaf udp dest domain c now dl ?w = None" using Suc.IH c(1) by blast
    moreover have "urltest_child (if ?b then u else start_probe u) = Inr t"
      using t(1) by simp
    moreover have "bindR (shared_get ?w) (\<lambda>om. om_get om t) = Inr c" using t(2) by (simp add: shared_get_def upd_ob_def)
    ultimately have "dial_child (dial n leaf udp dest domain) (urltest_child (if ?b then u else start_probe u)) now dl ?w = None"
      by (simp only: dial_child_def bindR.simps sum.case)
    then show ?thesis using UrlTest by (simp only: dial.simps Outbound.case Let_def)
  qed (use c(2) in \<open>simp_all add: chosen_def\<close>)
qed simp

definition selector_cfg :: "string \<Rightarrow> string \<Rightarrow> OutboundCfg" where
  "selector_cfg tag child = \<lparr>ob_kind = ''selector'', ob_tag = Some tag, ob_raw = JObj [(''outbounds'', JArr [JStr child])]\<rparr>"

definition circle_options :: Options where
  "circle_options = \<lparr>op_log = \<lparr>log_disabled = False, log_level = ''info'', log_output = None\<rparr>, op_dns = None, op_inbounds = [],
     op_outbounds = [selector_cfg ''x'' ''y'', selector_cfg ''y'' ''x''], op_route = None, op_outbound_providers = []\<rparr>"

theorem cyclic_choice_never_returns_witness:
  "validate circle_options = Inr () \<and>
   (\<exists>w. engine_outbounds (\<lambda>_ _ _. Inr ()) circle_options = Inr w \<and> (\<forall>n. dial n demo_leaf False demo_dest None 0 0 None w = None))"
proof
  show "validate circle_options = Inr ()" by (simp add: validate_def circle_options_def selector_cfg_def)
  have ix: "build_index [''x'', ''y''] = [(''x'', 0), (''y'', 1)]" by (simp add: build_index_def)
  define w where "w = \<lparr>ow_obs = [Selector \<lparr>sl_tag = ''x'', sl_outbounds = [''y''], sl_selected = 0\<rparr>,
       Selector \<lparr>sl_tag = ''y'', sl_outbounds = [''x''], sl_selected = 0\<rparr>],
     ow_shared = Some \<lparr>om_outbounds = [''x'', ''y''], om_default_tag = ''x'', om_index = [(''x'', 0), (''y'', 1)]\<rparr>,
     oc_selectors = [(''x'', 0), (''y'', 1)], oc_urltests = [], oc_fallbacks = []\<rparr>"
  have e: "engine_outbounds (\<lambda>_ _ _. Inr ()) circle_options = Inr w"
    by (simp add: engine_outbounds_def circle_options_def selector_cfg_def default_outbound_tag_def route_final_def
        outbound_tag_def build_outbounds_def build_outbound_def LEAF_TYPES_def selector_new_def child_tags_def
        get_array_def get_str_def push_outbound_def outbounds_empty_def outbound_manager_new_def ix Let_def
        List.map_filter_def w_def)
  have "\<forall>i \<in> {0, 1}. \<exists>c \<in> {0, 1}. chosen w i = Some c"
    by (simp add: chosen_def w_def selector_child_def get_or_first_def with_context_def shared_get_def om_get_def idx_def)
  then have "\<forall>n. dial n demo_leaf False demo_dest None 0 0 None w = None"
    by (intro allI cyclic_choice_never_returns [of "{0, 1}"]) simp_all
  with e show "\<exists>w. engine_outbounds (\<lambda>_ _ _. Inr ()) circle_options = Inr w \<and> (\<forall>n. dial n demo_leaf False demo_dest None 0 0 None w = None)"
    by blast
qed

end
