(* ===== verification/Group_Choice.thy ===== *)
theory Group_Choice
  imports Outbound_Groups
begin

text \<open>Which child a group uses: the first of a fallback group that answers in time, the fastest by latency, the selected one.\<close>

section \<open>Fallback groups\<close>

text \<open>
  One child of a fallback group whose children are leaves, tried at an instant: when the trial
  is over and what it gave.
\<close>

definition attempt ::
    "(nat \<Rightarrow> SocketAddr \<Rightarrow> string option \<Rightarrow> nat \<Rightarrow> 'c reply) \<Rightarrow> bool \<Rightarrow> SocketAddr \<Rightarrow> string option \<Rightarrow> OutboundManager \<Rightarrow>
     FallbackPolicy \<Rightarrow> nat \<Rightarrow> nat \<Rightarrow> nat \<times> 'c res" where
  "attempt leaf udp dest domain om p k now =
     (let tag = fp_outbounds p ! k; timeout = fp_dial_timeout p;
          late = (now + timeout, Inl (timeout_error udp timeout tag)) in
      case om_get om tag of
        Inl e \<Rightarrow> (now, Inl e)
      | Inr c \<Rightarrow> (case leaf c dest domain now of Reply d r \<Rightarrow> if d \<le> timeout then (now + d, r) else late | NoReply \<Rightarrow> late))"

text \<open>When the child \<open>k\<close> is tried, if trying begins with the child \<open>a\<close>.\<close>

primrec start_of :: "(nat \<Rightarrow> nat \<Rightarrow> nat \<times> 'r) \<Rightarrow> nat \<Rightarrow> nat \<Rightarrow> nat \<Rightarrow> nat" where
  "start_of att a now 0 = now"
| "start_of att a now (Suc k) = (if k < a then now else fst (att k (start_of att a now k)))"

lemma start_of_begin: "start_of att a now a = now"
  by (cases a) simp_all

definition leaf_children :: "FallbackPolicy \<Rightarrow> OutboundManager \<Rightarrow> Outbounds \<Rightarrow> bool" where
  "leaf_children p om w \<longleftrightarrow> (\<forall>t \<in> set (fp_outbounds p). \<forall>c. om_get om t = Inr c \<longrightarrow> (\<exists>k t'. ow_obs w ! c = Leaf k t'))"

definition no_panic :: "(nat \<Rightarrow> SocketAddr \<Rightarrow> string option \<Rightarrow> nat \<Rightarrow> 'c reply) \<Rightarrow> bool" where
  "no_panic leaf \<longleftrightarrow> (\<forall>c dest domain now d r. leaf c dest domain now = Reply d r \<longrightarrow> \<not> panics r)"

lemma attempt_cascade:
  fixes leaf :: "nat \<Rightarrow> SocketAddr \<Rightarrow> string option \<Rightarrow> nat \<Rightarrow> 'c reply"
  assumes "leaf_children p om w" "no_panic leaf" "k < length (fp_outbounds p)" "attempt leaf udp dest domain om p k now = (t, r)"
  shows "cascade (dial (Suc n) leaf udp dest domain) udp i om p a le (k # ks) now None w =
    (case r of
       Inl e \<Rightarrow> cascade (dial (Suc n) leaf udp dest domain) udp i om p a (Some e) ks t None w
     | Inr conn \<Rightarrow>
         Some (if k > a then
                 case ow_obs w ! i of
                   Fallback s \<Rightarrow> (let (x, s) = on_failover k s in (Done t (bindR x (\<lambda>_. Inr conn)), upd_ob i (Fallback s) w))
                 | _ \<Rightarrow> (Done t (Inr conn), w)
               else (Done t (Inr conn), w)))"
proof (cases "om_get om (fp_outbounds p ! k)")
  case (Inl e)
  then show ?thesis using assms(3,4) by (auto simp: attempt_def idx_def Let_def)
next
  case (Inr c)
  obtain kd tg where c: "ow_obs w ! c = Leaf kd tg"
    using assms(1,3) Inr unfolding leaf_children_def by (metis nth_mem)
  show ?thesis
  proof (cases "leaf c dest domain now")
    case (Reply d x)
    then have "\<not> panics x" using assms(2) by (simp add: no_panic_def)
    then show ?thesis using Inr c Reply assms(3,4)
      by (cases x) (auto simp: attempt_def idx_def Let_def dial_leaf_def in_time_def earlier_def
          split: if_splits Outbound.split prod.split)
  next
    case NoReply
    then show ?thesis using Inr c assms(3,4)
      by (auto simp: attempt_def idx_def Let_def dial_leaf_def in_time_def earlier_def)
  qed
qed

lemma on_failover_down:
  "k > fs_active_idx s \<Longrightarrow> k < length (fp_outbounds (fs_policy s)) \<Longrightarrow>
     on_failover k s = (Inr (), s\<lparr>fs_active_idx := k\<rparr>)"
  by (simp add: on_failover_def failover_store_def idx_def)

lemma upd_ob_same: "ow_obs w ! i = ob \<Longrightarrow> upd_ob i ob w = w"
  by (auto simp: upd_ob_def)

definition fallback_result ::
    "(nat \<Rightarrow> nat \<Rightarrow> nat \<times> 'c res) \<Rightarrow> nat \<Rightarrow> FallbackState \<Rightarrow> nat list \<Rightarrow> nat \<Rightarrow> Outbounds \<Rightarrow> 'c dialled \<times> Outbounds" where
  "fallback_result att i s ks now w =
     (let st = start_of att (fs_active_idx s) now; result = (\<lambda>k. snd (att k (st k))); n = length (fp_outbounds (fs_policy s)) in
      case filter (\<lambda>k. is_ok (result k)) ks of
        k # _ \<Rightarrow> (Done (st (Suc k)) (result k), upd_ob i (Fallback (s\<lparr>fs_active_idx := k\<rparr>)) w)
      | [] \<Rightarrow> (Done (st n) (result (n - 1)), w))"

lemma cascade_result:
  fixes leaf :: "nat \<Rightarrow> SocketAddr \<Rightarrow> string option \<Rightarrow> nat \<Rightarrow> 'c reply"
  assumes w: "ow_obs w ! i = Fallback s" "leaf_children (fs_policy s) om w" "no_panic leaf"
    and a: "a = fs_active_idx s" "a < length (fp_outbounds (fs_policy s))"
    and att_def: "att = attempt leaf udp dest domain om (fs_policy s)"
    and "a \<le> k" "k \<le> length (fp_outbounds (fs_policy s))"
    and "k = a \<or> (\<exists>e. le = Some e \<and> snd (att (k - 1) (start_of att a now (k - 1))) = Inl e)"
  shows "cascade (dial (Suc n) leaf udp dest domain) udp i om (fs_policy s) a le
      [k..<length (fp_outbounds (fs_policy s))] (start_of att a now k) None w =
    Some (fallback_result att i s [k..<length (fp_outbounds (fs_policy s))] now w)"
  using assms(7-9)
proof (induction "length (fp_outbounds (fs_policy s)) - k" arbitrary: k le)
  case 0
  then have k: "k = length (fp_outbounds (fs_policy s))" by simp
  then obtain e where "le = Some e" "snd (att (k - 1) (start_of att a now (k - 1))) = Inl e" using "0.prems" a by auto
  then show ?case using k a by (simp add: fallback_result_def Let_def)
next
  case (Suc m)
  let ?n = "length (fp_outbounds (fs_policy s))"
  have k: "k < ?n" using Suc(2) by simp
  then have ks: "[k..<?n] = k # [Suc k..<?n]" by (simp add: upt_conv_Cons)
  obtain t r where tr: "att k (start_of att a now k) = (t, r)" by fastforce
  have st: "start_of att a now (Suc k) = t" using tr Suc.prems(1) by simp
  note step = attempt_cascade [OF w(2,3) k tr [unfolded att_def]]
  show ?case
  proof (cases r)
    case (Inl e)
    have "cascade (dial (Suc n) leaf udp dest domain) udp i om (fs_policy s) a (Some e) [Suc k..<?n] t None w =
        Some (fallback_result att i s [Suc k..<?n] now w)"
      using Suc.hyps(1) [of "Suc k" "Some e"] Suc.hyps(2) Suc.prems tr st Inl k by simp
    moreover have "fallback_result att i s [k..<?n] now w = fallback_result att i s [Suc k..<?n] now w"
      using tr Inl a(1) by (simp add: fallback_result_def ks)
    ultimately show ?thesis using step Inl by (simp add: ks att_def)
  next
    case (Inr conn)
    then have r: "fallback_result att i s [k..<?n] now w = (Done t (Inr conn), upd_ob i (Fallback (s\<lparr>fs_active_idx := k\<rparr>)) w)"
      using tr st a(1) by (simp add: fallback_result_def ks Let_def)
    show ?thesis
    proof (cases "k > a")
      case True
      then show ?thesis using step Inr r w(1) on_failover_down [of s k] a k by (simp add: ks att_def)
    next
      case False
      then have "upd_ob i (Fallback (s\<lparr>fs_active_idx := k\<rparr>)) w = w"
        using Suc.prems(1) a w(1) by (intro upd_ob_same) simp
      then show ?thesis using step Inr r False by (simp add: ks att_def)
    qed
  qed
qed

text \<open>
  C34: A fallback group of leaves tries its children in order from its current one on, each from
  the instant the one before was given up and at most for the timeout. It uses the first
  child that connects in time and stays at that child; the children before are not touched
  again. If none connects, the error is that of the last child and the group stays where it
  was.
\<close>
theorem fallback_dial_spec:
  assumes "ow_obs w ! i = Fallback s" "ow_shared w = Some om" "leaf_children (fs_policy s) om w" "no_panic leaf"
    and "fs_active_idx s < length (fp_outbounds (fs_policy s))"
  shows "dial (Suc (Suc n)) leaf udp dest domain i now None w =
    Some (let att = attempt leaf udp dest domain om (fs_policy s); st = start_of att (fs_active_idx s) now;
              result = (\<lambda>k. snd (att k (st k))); len = length (fp_outbounds (fs_policy s)) in
          case filter (\<lambda>k. is_ok (result k)) [fs_active_idx s..<len] of
            k # _ \<Rightarrow> (Done (st (Suc k)) (result k), upd_ob i (Fallback (s\<lparr>fs_active_idx := k\<rparr>)) w)
          | [] \<Rightarrow> (Done (st len) (result (len - 1)), w))"
proof -
  have "dial_order s = [fs_active_idx s..<length (fp_outbounds (fs_policy s))]"
    using assms(5) by (auto simp: dial_order_def Let_def)
  then show ?thesis
    using cascade_result [OF assms(1,3,4) refl assms(5) refl order_refl, of None udp dest domain now n] assms(1,2,5)
    by (simp add: shared_get_def with_context_def start_of_begin fallback_result_def Let_def)
qed

lemma demo_attempts:
  defines "p \<equiv> \<lparr>fp_outbounds = [''b'', ''a''], fp_dial_timeout = 50, fp_warm_children = True\<rparr>"
    and "om \<equiv> \<lparr>om_outbounds = [''a'', ''b'', ''f'', ''s''], om_default_tag = ''s'', om_index = build_index [''a'', ''b'', ''f'', ''s'']\<rparr>"
  shows "attempt demo_leaf False demo_dest None om p 0 0 = (50, Inl (timeout_error False 50 ''b''))"
    and "attempt demo_leaf False demo_dest None om p (Suc 0) 50 = (57, Inr ())"
  by (simp_all add: attempt_def p_def om_def om_get_def demo_index idx_def demo_leaf_def)

theorem fallback_dial_spec_witness:
  "dial 2 demo_leaf False demo_dest None 2 0 None demo =
     Some (Done 57 (Inr ()), upd_ob 2 (Fallback \<lparr>fs_tag = ''f'', fs_policy = \<lparr>fp_outbounds = [''b'', ''a''], fp_dial_timeout = 50,
       fp_warm_children = True\<rparr>, fs_active_idx = 1\<rparr>) demo)"
proof -
  define p where "p = \<lparr>fp_outbounds = [''b'', ''a''], fp_dial_timeout = 50, fp_warm_children = True\<rparr>"
  define s where "s = \<lparr>fs_tag = ''f'', fs_policy = p, fs_active_idx = 0\<rparr>"
  define om where "om = \<lparr>om_outbounds = [''a'', ''b'', ''f'', ''s''], om_default_tag = ''s'',
      om_index = build_index [''a'', ''b'', ''f'', ''s'']\<rparr>"
  define att where "att = attempt demo_leaf False demo_dest None om p"
  have w: "ow_obs demo ! 2 = Fallback s" "ow_shared demo = Some om" by (simp_all add: demo_def s_def p_def om_def)
  have lc: "leaf_children (fs_policy s) om demo"
    by (simp add: leaf_children_def om_def om_get_def demo_index idx_def demo_def s_def p_def)
  have np: "no_panic demo_leaf" by (auto simp: no_panic_def demo_leaf_def split: if_splits)
  have f: "fs_policy s = p" "fs_active_idx s = 0" "length (fp_outbounds p) = 2" by (simp_all add: s_def p_def)
  have att: "att 0 0 = (50, Inl (timeout_error False 50 ''b''))" "att (Suc 0) 50 = (57, Inr ())"
    unfolding att_def p_def om_def by (rule demo_attempts)+
  have "[0..<2] = [0, Suc 0]" by (simp add: numeral_2_eq_2)
  then have "dial (Suc (Suc 0)) demo_leaf False demo_dest None 2 0 None demo =
     Some (Done 57 (Inr ()), upd_ob 2 (Fallback (s\<lparr>fs_active_idx := Suc 0\<rparr>)) demo)"
    using fallback_dial_spec [OF w lc np, of 0 False demo_dest None 0] att
    by (simp add: f Let_def del: dial.simps flip: att_def)
  then show ?thesis by (simp add: numeral_2_eq_2 s_def p_def del: dial.simps)
qed


section \<open>Groups by latency\<close>

definition answered :: "(string \<times> u32 option) list \<Rightarrow> (string \<times> u32) list" where
  "answered raw = List.map_filter (\<lambda>(tag, d). map_option (\<lambda>ms. (tag, ms)) d) raw"

lemma answered_simps [simp]:
  "answered [] = []" "answered ((t, None) # r) = answered r" "answered ((t, Some ms) # r) = (t, ms) # answered r"
  by (simp_all add: answered_def map_filter_simps)

lemma position_Some: "x \<in> set xs \<Longrightarrow> \<exists>i < length xs. position x xs = Some i \<and> xs ! i = x"
proof (induction xs)
  case (Cons y ys)
  show ?case
  proof (cases "y = x")
    case False
    then obtain i where "i < length ys" "position x ys = Some i" "ys ! i = x" using Cons by auto
    then show ?thesis using False by (intro exI [of _ "Suc i"]) simp
  qed auto
qed simp

text \<open>The loop keeps the best answer so far; \<open>better\<close> is one round of it.\<close>

definition better :: "string list \<Rightarrow> string \<times> u32 \<Rightarrow> nat \<times> u32 \<Rightarrow> nat \<times> u32" where
  "better obs x b = (if snd x < snd b then (the (position (fst x) obs), snd x) else b)"

lemma best_loop_fold:
  "fst ` set raw \<subseteq> set obs \<Longrightarrow> best_loop obs bi bm raw = (fst (fold (better obs) (answered raw) (bi, bm)), answered raw)"
proof (induction raw arbitrary: bi bm)
  case (Cons x raw)
  obtain t d where x: "x = (t, d)" by (cases x)
  show ?case
  proof (cases d)
    case None
    then show ?thesis using Cons by (simp add: x)
  next
    case (Some ms)
    have "t \<in> set obs" using Cons.prems by (simp add: x)
    then obtain i where i: "position t obs = Some i" using position_Some [of t obs] by auto
    have "best_loop obs bi' bm' raw = (fst (fold (better obs) (answered raw) (bi', bm')), answered raw)" for bi' bm'
      using Cons.IH Cons.prems by simp
    moreover have "better obs (t, ms) (bi, bm) = (if ms < bm then (i, ms) else (bi, bm))" by (simp add: better_def i)
    ultimately show ?thesis by (cases "ms < bm") (simp_all add: x Some i)
  qed
qed simp

definition fastest :: "(string \<times> u32) list \<Rightarrow> string \<times> u32 \<Rightarrow> string \<times> u32" where
  "fastest xs x = fold (\<lambda>y best. if snd y < snd best then y else best) xs x"

lemma fastest_min: "fastest xs x \<in> set (x # xs) \<and> (\<forall>y \<in> set (x # xs). snd (fastest xs x) \<le> snd y)"
  unfolding fastest_def
proof (induction xs arbitrary: x)
  case (Cons y ys)
  let ?z = "if snd y < snd x then y else x"
  have "snd ?z \<le> snd x" "snd ?z \<le> snd y" "?z \<in> {x, y}" by auto
  then show ?case using Cons [of ?z] by (auto intro: order_trans)
qed simp

lemma fold_better:
  assumes "b = (if snd x < - 1 then (the (position (fst x) obs), snd x) else (0, - 1))"
  shows "fold (better obs) xs b =
    (let z = fastest xs x in if snd z < - 1 then (the (position (fst z) obs), snd z) else (0, - 1))"
  using assms
proof (induction xs arbitrary: x b)
  case (Cons y ys)
  let ?z = "if snd y < snd x then y else x"
  have top: "\<not> snd x < - 1 \<Longrightarrow> snd x = - 1" "\<not> snd y < - 1 \<Longrightarrow> snd y = - 1" by (auto simp: not_less intro: antisym)
  have "better obs y b = (if snd ?z < - 1 then (the (position (fst ?z) obs), snd ?z) else (0, - 1))"
    using Cons.prems top by (auto simp: better_def)
  from Cons.IH [OF this] show ?case by (simp add: fastest_def)
qed (simp add: fastest_def Let_def)

lemma probe_loop_tags:
  "probe_loop n leaf net url om tags now w = Some (Done t (Inr raw), w') \<Longrightarrow> map fst raw = tags"
proof (induction tags arbitrary: now w t raw)
  case (Cons tag tags)
  then show ?case
    by (auto simp: Let_def split: option.splits prod.splits dialled.splits sum.splits if_splits)
qed simp

lemma probe_all_tags:
  "probe_all n leaf net obs url now w = Some (Done t (Inr raw), w') \<Longrightarrow> fst ` set raw \<subseteq> set obs"
  using probe_loop_tags [of n leaf net url _ obs now w t raw w']
  by (auto simp: probe_all_def split: sum.splits simp flip: set_map)

lemma pick_best_fastest: "answered raw = x # xs \<Longrightarrow> pick_best raw = Some (fst (fastest xs x))"
  by (simp add: pick_best_def answered_def fastest_def)

text \<open>
  C37: A probe that comes to an end reports exactly the children that answered, with their
  delays in milliseconds, and selects the first child of least delay, which is the one
  \<^verbatim>\<open>pick_best\<close> names. If no child answered the selection stays.
\<close>
theorem probe_selects_fastest:
  assumes "probe_all n leaf net (ut_outbounds u) (ut_url u) now w = Some (Done t (Inr raw), w1)"
    and "i < length (ow_obs w)" "ow_obs w ! i = UrlTest u"
    and "\<forall>x \<in> set (answered raw). snd x \<noteq> - 1"
  shows "\<exists>w' u'. run_probe n leaf net i u now w = Some (Done t (Inr (answered raw)), w') \<and> ow_obs w' ! i = UrlTest u' \<and>
    (case pick_best raw of
       None \<Rightarrow> answered raw = [] \<and> ut_selected u' = ut_selected u
     | Some tag \<Rightarrow> urltest_selected u' = tag \<and> (\<exists>ms. (tag, ms) \<in> set (answered raw) \<and> (\<forall>x \<in> set (answered raw). ms \<le> snd x)))"
proof -
  note tags = probe_all_tags [OF assms(1)]
  have "evolves False w w1" using assms(1) probe_loop_evolves by (auto simp: probe_all_def split: sum.splits)
  then obtain h where u1: "ow_obs w1 ! i = UrlTest (u\<lparr>ut_handle := h\<rparr>)" and len: "length (ow_obs w1) = length (ow_obs w)"
    using evolves_nth [of False w w1 i] evolves_same [of False w w1] assms(2,3) by auto
  show ?thesis
  proof (cases "answered raw")
    case Nil
    then have "pick_best raw = None" by (simp add: pick_best_def answered_def)
    then show ?thesis using assms(1) u1 Nil by (simp add: run_probe_def best_loop_fold [OF tags])
  next
    case (Cons x xs)
    define z where "z = fastest xs x"
    have z: "z \<in> set (answered raw)" "\<forall>y \<in> set (answered raw). snd z \<le> snd y"
      using fastest_min [of xs x] by (simp_all add: Cons z_def)
    have lt: "snd y < - 1" if "y \<in> set (answered raw)" for y
      using assms(4) that word_order.not_eq_extremum [of "snd y"] by simp
    have tag: "fst z \<in> set (ut_outbounds u)"
      using z(1) tags by (fastforce simp: answered_def map_filter_def image_iff)
    then obtain k where k: "k < length (ut_outbounds u)" "position (fst z) (ut_outbounds u) = Some k" "ut_outbounds u ! k = fst z"
      using position_Some by metis
    have "better (ut_outbounds u) x (0, - 1) = (the (position (fst x) (ut_outbounds u)), snd x)"
      using lt [of x] Cons by (simp add: better_def)
    then have "best_loop (ut_outbounds u) 0 (- 1) raw = (k, answered raw)"
      using fold_better [of _ x "ut_outbounds u" xs] lt [of x] lt [OF z(1)] k
      by (simp add: best_loop_fold [OF tags] Cons z_def Let_def)
    then have "run_probe n leaf net i u now w = Some (Done t (Inr (answered raw)), store_best i k w1)"
      using assms(1) Cons by (simp add: run_probe_def)
    moreover have "ow_obs (store_best i k w1) ! i = UrlTest (u\<lparr>ut_handle := h, ut_selected := k\<rparr>)"
      using u1 len assms(2) by (simp add: store_best_def upd_ob_def)
    moreover have "urltest_selected (u\<lparr>ut_handle := h, ut_selected := k\<rparr>) = fst z"
      using k by (simp add: urltest_selected_def get_or_first_def)
    ultimately show ?thesis
      using z pick_best_fastest [OF Cons] by (auto simp: z_def [symmetric] intro!: exI [of _ "snd z"])
  qed
qed

definition speed_group :: UrlTestOutbound where
  "speed_group = \<lparr>ut_tag = ''u'', ut_outbounds = [''a'', ''b''], ut_url = ''http://h/'', ut_interval = 1, ut_selected = 0, ut_handle = True\<rparr>"

definition speed_demo :: Outbounds where
  "speed_demo = \<lparr>ow_obs = [Leaf ''direct'' ''a'', Leaf ''rsq'' ''b'', UrlTest speed_group],
     ow_shared = Some \<lparr>om_outbounds = [''a'', ''b'', ''u''], om_default_tag = ''u'', om_index = [(''a'', 0), (''b'', 1), (''u'', 2)]\<rparr>,
     oc_selectors = [], oc_urltests = [(''u'', 2)], oc_fallbacks = []\<rparr>"

text \<open>The first child takes nine milliseconds, the second four.\<close>

definition speed_leaf :: "nat \<Rightarrow> SocketAddr \<Rightarrow> string option \<Rightarrow> nat \<Rightarrow> nat reply" where
  "speed_leaf i dest domain now = Reply (if i = 0 then 9 * 10 ^ 6 else 4 * 10 ^ 6) (Inr i)"

definition speed_net :: "nat ProbeNet" where
  "speed_net = \<lparr>pn_resolve = (\<lambda>h now. Reply 0 (Inr [demo_dest])), pn_write = (\<lambda>c req now. Reply 0 (Inr ())),
     pn_read = (\<lambda>c now. Reply 0 (Inr (as_bytes ''HTTP/1.1 204'')))\<rparr>"

lemma speed_url: "parse_probe_url ''http://h/'' = Inr (''h'', 80, ''/'')"
  by (simp add: parse_probe_url_def strip_prefix_def)

lemma speed_ok: "probe_status_ok (take 512 (as_bytes ''HTTP/1.1 204''))"
  by (simp add: probe_status_ok_def as_bytes_def)

lemma speed_latency:
  "i < 2 \<Longrightarrow> probe_latency 1 speed_leaf speed_net i ''http://h/'' now speed_demo =
     Some (Done (now + (if i = 0 then 9 * 10 ^ 6 else 4 * 10 ^ 6)) (Inr (if i = 0 then 9 * 10 ^ 6 else 4 * 10 ^ 6)), speed_demo)"
proof -
  assume "i < 2"
  then have "ow_obs speed_demo ! i = (if i = 0 then Leaf ''direct'' ''a'' else Leaf ''rsq'' ''b'')"
    by (auto simp: speed_demo_def less_2_cases_iff)
  moreover have "take 512 (as_bytes ''HTTP/1.1 204'') \<noteq> []" by (simp add: as_bytes_def)
  ultimately show ?thesis
    using speed_ok
    by (simp add: probe_latency_def speed_url and_then_def speed_net_def dial_leaf_def in_time_def speed_leaf_def
        probe_exchange_def Let_def del: take_map)
qed

lemma speed_probe:
  "probe_all 1 speed_leaf speed_net (ut_outbounds speed_group) (ut_url speed_group) 0 speed_demo =
     Some (Done (13 * 10 ^ 6) (Inr [(''a'', Some 9), (''b'', Some 4)]), speed_demo)"
proof -
  let ?om = "\<lparr>om_outbounds = [''a'', ''b'', ''u''], om_default_tag = ''u'', om_index = [(''a'', 0), (''b'', 1), (''u'', 2)]\<rparr>"
  have "shared_get speed_demo = Inr ?om" by (simp add: shared_get_def with_context_def speed_demo_def)
  moreover have "om_get ?om ''a'' = Inr 0" "om_get ?om ''b'' = Inr 1" by (simp_all add: om_get_def idx_def)
  moreover have "probe_latency 1 speed_leaf speed_net 0 ''http://h/'' 0 speed_demo = Some (Done 9000000 (Inr 9000000), speed_demo)"
    "probe_latency 1 speed_leaf speed_net 1 ''http://h/'' 9000000 speed_demo = Some (Done 13000000 (Inr 4000000), speed_demo)"
    using speed_latency [of 0 0] speed_latency [of 1 9000000] by simp_all
  moreover have "as_delay 9000000 = 9" "as_delay 4000000 = 4" by (simp_all add: as_delay_def)
  ultimately show ?thesis by (simp add: probe_all_def speed_group_def)
qed

theorem probe_selects_fastest_witness:
  "\<exists>w' u'. run_probe 1 speed_leaf speed_net 2 speed_group 0 speed_demo = Some (Done (13 * 10 ^ 6) (Inr [(''a'', 9), (''b'', 4)]), w') \<and>
    ow_obs w' ! 2 = UrlTest u' \<and> urltest_selected u' = ''b''"
proof -
  have "2 < length (ow_obs speed_demo)" "ow_obs speed_demo ! 2 = UrlTest speed_group" by (simp_all add: speed_demo_def)
  from probe_selects_fastest [OF speed_probe this] show ?thesis by (auto simp: pick_best_def map_filter_simps)
qed

text \<open>
  C38: A probe has no time limit. If a child can be dialled but its server never answers the
  request, the probe never ends, the children after it are not tried, and the selection of the
  group stays as it was although other children have answered.
\<close>
theorem silent_child_stalls_probe:
  assumes "i < length (ow_obs w)" "ow_obs w ! i = UrlTest u" "ow_shared w = Some om"
    and "ut_outbounds u = pre @ tag # post" "probe_loop n leaf net (ut_url u) om pre now w = Some (Done t (Inr raw), w1)"
    and "om_get om tag = Inr c" "parse_probe_url (ut_url u) = Inr (host, port, path)"
    and "pn_resolve net (host @ '':'' @ show_nat (unat port)) t = Reply d (Inr (addr # addrs))"
    and "dial n leaf False addr None c (t + d) None w1 = Some (Done t' (Inr conn), w2)"
    and "pn_write net conn (probe_request host path) t' = Reply d' (Inr ())" "pn_read net conn (t' + d') = NoReply"
  shows "run_probe n leaf net i u now w = Some (Cut, w2) \<and>
    (\<exists>u'. ow_obs w2 ! i = UrlTest u' \<and> ut_selected u' = ut_selected u)"
proof
  have split: "probe_loop n leaf net url om (xs @ ys) now w0 = Some (Cut, w')"
    if "probe_loop n leaf net url om xs now w0 = Some (Done t (Inr rs), w1')"
      "probe_loop n leaf net url om ys t w1' = Some (Cut, w')" for url xs ys rs w0 w1' w' now
    using that
  proof (induction xs arbitrary: now w0 rs)
    case (Cons x xs)
    then show ?case
      by (auto simp: Let_def split: option.splits prod.splits dialled.splits sum.splits if_splits)
  qed simp
  have "probe_latency n leaf net c (ut_url u) t w1 = Some (Cut, w2)"
    using assms(7-11) by (simp add: probe_latency_def and_then_def probe_exchange_def Let_def)
  then have "probe_loop n leaf net (ut_url u) om (tag # post) t w1 = Some (Cut, w2)" using assms(6) by simp
  from split [OF assms(5) this] show "run_probe n leaf net i u now w = Some (Cut, w2)"
    using assms(3,4) by (simp add: run_probe_def probe_all_def shared_get_def with_context_def)
  have "evolves False w w2"
    using probe_loop_evolves [OF assms(5)] dial_evolves [OF assms(9)] by (rule evolves_trans)
  then show "\<exists>u'. ow_obs w2 ! i = UrlTest u' \<and> ut_selected u' = ut_selected u"
    using evolves_nth [of False w w2 i] assms(1,2) by auto
qed

theorem silent_child_stalls_probe_witness:
  "run_probe 1 speed_leaf (speed_net\<lparr>pn_read := (\<lambda>c now. NoReply)\<rparr>) 2 speed_group 0 speed_demo = Some (Cut, speed_demo)"
proof -
  let ?net = "speed_net\<lparr>pn_read := (\<lambda>c now. NoReply)\<rparr>"
  let ?om = "\<lparr>om_outbounds = [''a'', ''b'', ''u''], om_default_tag = ''u'', om_index = [(''a'', 0), (''b'', 1), (''u'', 2)]\<rparr>"
  have "2 < length (ow_obs speed_demo)" "ow_obs speed_demo ! 2 = UrlTest speed_group" "ow_shared speed_demo = Some ?om"
    by (simp_all add: speed_demo_def)
  moreover have "ut_outbounds speed_group = [] @ ''a'' # [''b'']" "parse_probe_url (ut_url speed_group) = Inr (''h'', 80, ''/'')"
    by (simp_all add: speed_group_def speed_url)
  moreover have "dial 1 speed_leaf False demo_dest None 0 (0 + 0) None speed_demo = Some (Done (9 * 10 ^ 6) (Inr 0), speed_demo)"
    by (simp add: speed_demo_def dial_leaf_def in_time_def speed_leaf_def)
  ultimately show ?thesis
    using silent_child_stalls_probe [where pre = "[]" and net = ?net and d = 0 and d' = 0 and addrs = "[]" and raw = "[]"
        and now = 0 and t = 0 and ?w1.0 = speed_demo and tag = "''a''" and post = "[''b'']" and om = ?om and c = 0]
    by (auto simp: om_get_def idx_def speed_net_def)
qed

end
