(* ===== verification/Dialer.thy ===== *)
theory Dialer
  imports Outbound_Groups Router Connection_Manager
begin

text \<open>
  The dialer (\<^verbatim>\<open>Dialer\<close> of \<^verbatim>\<open>rsb-core/src/runtime.rs\<close>) and the tracked streams it returns
  (\<^verbatim>\<open>rsb-core/src/proxy_stream.rs\<close>): the router chooses an outbound, the connection manager keeps the
  connection in its table as long as it lives, and the outbound, which may be a group, dials.
\<close>

section \<open>Definitions\<close>

record 'c TrackedStream =
  tk_inner :: 'c
  tk_id :: u64
  tk_inbound_tag :: string
  tk_outbound_tag :: string
  tk_user :: "string option"

definition tracked_stream :: "'c \<Rightarrow> u64 \<Rightarrow> ConnectionManager \<Rightarrow> 'c TrackedStream" where
  "tracked_stream inner cid cm =
     (let (itag, otag, user) = (case connection_info cm cid of Some x \<Rightarrow> x | None \<Rightarrow> (''unknown'', ''unknown'', None)) in
      \<lparr>tk_inner = inner, tk_id = cid, tk_inbound_tag = itag, tk_outbound_tag = otag, tk_user = user\<rparr>)"

definition stream_drop :: "'c TrackedStream \<Rightarrow> ConnectionManager \<Rightarrow> ConnectionManager" where
  "stream_drop st cm = untrack (tk_id st) cm"

text \<open>What a poll of the inner stream gives: the number of bytes moved, an error, or nothing yet.\<close>

datatype poll = Ready nat | ReadyErr | Pending

definition poll_read :: "'c TrackedStream \<Rightarrow> poll \<Rightarrow> ConnectionManager \<Rightarrow> ConnectionManager" where
  "poll_read st p cm =
     (case p of
        Ready n \<Rightarrow> if n > 0 then record_traffic (tk_inbound_tag st) (tk_outbound_tag st) 0 (of_nat n) (tk_user st) cm else cm
      | _ \<Rightarrow> cm)"

definition poll_write :: "'c TrackedStream \<Rightarrow> poll \<Rightarrow> ConnectionManager \<Rightarrow> ConnectionManager" where
  "poll_write st p cm =
     (case p of
        Ready n \<Rightarrow> if n > 0 then record_traffic (tk_inbound_tag st) (tk_outbound_tag st) (of_nat n) 0 (tk_user st) cm else cm
      | _ \<Rightarrow> cm)"

text \<open>
  \<^verbatim>\<open>dial_tcp\<close> up to the call of the outbound: the connection is tracked, then the outbound is looked
  up. The result holds the identifier, the tag and the position of the outbound.
\<close>

definition dial_begin ::
    "(string \<Rightarrow> string \<Rightarrow> bool option) \<Rightarrow> RuleRouter \<Rightarrow> OutboundManager \<Rightarrow> Metadata \<Rightarrow> SocketAddr \<Rightarrow> u64 \<Rightarrow>
     ConnectionManager \<Rightarrow> (u64 \<times> string \<times> nat) res \<times> ConnectionManager" where
  "dial_begin regex r om md dest secs cm =
     (case route regex r md of
        Inl e \<Rightarrow> (Inl e, cm)
      | Inr tag \<Rightarrow>
          (let (cid, cm) = track secs (md_inbound_tag md) tag ''tcp'' (md_source md) (Some dest) (md_domain md) (md_user md) cm in
           (bindR (om_get om tag) (\<lambda>i. Inr (cid, tag, i)), cm)))"

definition dial_finish :: "u64 \<Rightarrow> string \<Rightarrow> 'c res \<Rightarrow> ConnectionManager \<Rightarrow> 'c TrackedStream res \<times> ConnectionManager" where
  "dial_finish cid tag result cm =
     (case result of
        Inr conn \<Rightarrow> (Inr (tracked_stream conn cid cm), cm)
      | Inl (Err _) \<Rightarrow> (Inl (Err (''dial via outbound `'' @ tag @ ''`'')), untrack cid cm)
      | Inl (Panic m) \<Rightarrow> (Inl (Panic m), cm))"

definition dialer_dial_tcp ::
    "(string \<Rightarrow> string \<Rightarrow> bool option) \<Rightarrow> RuleRouter \<Rightarrow> OutboundManager \<Rightarrow> nat \<Rightarrow>
     (nat \<Rightarrow> SocketAddr \<Rightarrow> string option \<Rightarrow> nat \<Rightarrow> 'c reply) \<Rightarrow> Metadata \<Rightarrow> SocketAddr \<Rightarrow> u64 \<Rightarrow> nat \<Rightarrow> nat option \<Rightarrow>
     Outbounds \<Rightarrow> ConnectionManager \<Rightarrow> ('c TrackedStream dialled \<times> Outbounds \<times> ConnectionManager) option" where
  "dialer_dial_tcp regex r om n leaf md dest secs now deadline w cm =
     (case dial_begin regex r om md dest secs cm of
        (Inl e, cm) \<Rightarrow> Some (Done now (Inl e), w, cm)
      | (Inr (cid, tag, i), cm) \<Rightarrow>
          (case dial_tcp n leaf dest (md_domain md) i now deadline w of
             None \<Rightarrow> None
           | Some (Cut, w) \<Rightarrow> Some (Cut, w, cm)
           | Some (Done t result, w) \<Rightarrow>
               (let (result, cm) = dial_finish cid tag result cm in Some (Done t result, w, cm))))"

definition route_tag :: "(string \<Rightarrow> string \<Rightarrow> bool option) \<Rightarrow> RuleRouter \<Rightarrow> Metadata \<Rightarrow> string res" where
  "route_tag regex r md = route regex r md"

definition is_direct_outbound :: "OutboundManager \<Rightarrow> Outbounds \<Rightarrow> string \<Rightarrow> bool" where
  "is_direct_outbound om w tag = (case om_get om tag of Inr i \<Rightarrow> ob_kind_of (ow_obs w ! i) = ''direct'' | Inl _ \<Rightarrow> False)"

definition dialer_dial_udp ::
    "(string \<Rightarrow> string \<Rightarrow> bool option) \<Rightarrow> RuleRouter \<Rightarrow> OutboundManager \<Rightarrow> nat \<Rightarrow>
     (nat \<Rightarrow> SocketAddr \<Rightarrow> string option \<Rightarrow> nat \<Rightarrow> 'c reply) \<Rightarrow> Metadata \<Rightarrow> SocketAddr \<Rightarrow> nat \<Rightarrow> nat option \<Rightarrow>
     Outbounds \<Rightarrow> ('c dialled \<times> Outbounds) option" where
  "dialer_dial_udp regex r om n leaf md dest now deadline w =
     (case bindR (route regex r md) (\<lambda>tag. bindR (om_get om tag) (\<lambda>i. Inr (tag, i))) of
        Inl e \<Rightarrow> Some (Done now (Inl e), w)
      | Inr (tag, i) \<Rightarrow>
          (case dial_udp n leaf dest i now deadline w of
             Some (Done t (Inl (Err _)), w) \<Rightarrow> Some (Done t (Inl (Err (''dial udp via outbound `'' @ tag @ ''`''))), w)
           | other \<Rightarrow> other))"


section \<open>The life of a connection\<close>

datatype stream_op = PollRead poll | PollWrite poll

fun run_op :: "'c TrackedStream \<Rightarrow> stream_op \<Rightarrow> ConnectionManager \<Rightarrow> ConnectionManager" where
  "run_op st (PollRead p) cm = poll_read st p cm"
| "run_op st (PollWrite p) cm = poll_write st p cm"

fun moved :: "poll \<Rightarrow> nat" where
  "moved (Ready n) = n"
| "moved _ = 0"

fun written :: "stream_op \<Rightarrow> nat" where
  "written (PollWrite p) = moved p"
| "written (PollRead p) = 0"

fun read_back :: "stream_op \<Rightarrow> nat" where
  "read_back (PollRead p) = moved p"
| "read_back (PollWrite p) = 0"

lemma record_traffic_active [simp]: "cm_active (record_traffic itag otag up down user cm) = cm_active cm"
  by (auto simp: record_traffic_def Let_def split: option.split)

lemma record_traffic_outbound:
  "stats_of (cm_by_outbound (record_traffic itag otag up down user cm)) otag =
     \<lparr>ts_uplink = ts_uplink (stats_of (cm_by_outbound cm) otag) + up,
      ts_downlink = ts_downlink (stats_of (cm_by_outbound cm) otag) + down\<rparr>"
  by (cases "stats_of (cm_by_outbound cm) otag")
    (auto simp: record_traffic_def Let_def add_uplink_def add_downlink_def split: option.split)

lemma run_op_active [simp]: "cm_active (run_op st op cm) = cm_active cm"
  by (cases op; cases "case op of PollRead p \<Rightarrow> p | PollWrite p \<Rightarrow> p") (auto simp: poll_read_def poll_write_def)

lemma run_op_outbound:
  "stats_of (cm_by_outbound (run_op st op cm)) (tk_outbound_tag st) =
     \<lparr>ts_uplink = ts_uplink (stats_of (cm_by_outbound cm) (tk_outbound_tag st)) + of_nat (written op),
      ts_downlink = ts_downlink (stats_of (cm_by_outbound cm) (tk_outbound_tag st)) + of_nat (read_back op)\<rparr>"
  by (cases op; cases "case op of PollRead p \<Rightarrow> p | PollWrite p \<Rightarrow> p")
    (auto simp: poll_read_def poll_write_def record_traffic_outbound)

lemma run_ops:
  "cm_active (fold (run_op st) ops cm) = cm_active cm"
  "stats_of (cm_by_outbound (fold (run_op st) ops cm)) (tk_outbound_tag st) =
     \<lparr>ts_uplink = ts_uplink (stats_of (cm_by_outbound cm) (tk_outbound_tag st)) + of_nat (sum_list (map written ops)),
      ts_downlink = ts_downlink (stats_of (cm_by_outbound cm) (tk_outbound_tag st)) + of_nat (sum_list (map read_back ops))\<rparr>"
  by (induction ops arbitrary: cm) (simp_all add: run_op_outbound add.assoc)

lemma update_fresh: "k \<notin> fst ` set m \<Longrightarrow> AList.update k v m = m @ [(k, v)]"
  by (induction m) auto

lemma delete_fresh: "k \<notin> fst ` set m \<Longrightarrow> AList.delete k (m @ [(k, v)]) = m"
  by (induction m) (auto simp: AList.delete_eq)

text \<open>The table while a connection is dialled: one more entry, at the end.\<close>

lemma dial_begin_ok:
  assumes "dial_begin regex r om md dest secs cm = (Inr (cid, tag, i), cm1)" "cm_next_id cm \<notin> fst ` set (cm_active cm)"
  shows "route regex r md = Inr tag" "om_get om tag = Inr i" "cid = cm_next_id cm"
    "\<exists>info. cm_active cm1 = cm_active cm @ [(cid, info)] \<and> ci_inbound_tag info = md_inbound_tag md \<and>
       ci_outbound_tag info = tag \<and> ci_user info = md_user md"
    "cm_by_outbound cm1 = cm_by_outbound cm"
  using assms by (auto simp: dial_begin_def route_def track_def Let_def update_fresh)

lemma dial_finish_cases:
  assumes "dial_finish cid tag x cm = (result, cm1)"
  obtains (ok) conn where "x = Inr conn" "result = Inr (tracked_stream conn cid cm)" "cm1 = cm"
  | (failed) m where "x = Inl (Err m)" "result = Inl (Err (''dial via outbound `'' @ tag @ ''`''))" "cm1 = untrack cid cm"
  | (panicked) m where "x = Inl (Panic m)" "result = Inl (Panic m)" "cm1 = cm"
proof (cases x)
  case (Inl e)
  show ?thesis
  proof (cases e)
    case (Err m)
    show ?thesis by (rule failed [of m]) (use assms Inl Err in \<open>auto simp: dial_finish_def\<close>)
  next
    case (Panic m)
    show ?thesis by (rule panicked [of m]) (use assms Inl Panic in \<open>auto simp: dial_finish_def\<close>)
  qed
next
  case (Inr conn)
  show ?thesis by (rule ok [of conn]) (use assms Inr in \<open>auto simp: dial_finish_def\<close>)
qed

lemma dialer_result:
  assumes "dialer_dial_tcp regex r om n leaf md dest secs now dl w cm = Some (Done t result, w', cm1)"
    and "dial_begin regex r om md dest secs cm = (Inr (cid, tag, i), c)"
  shows "\<exists>x. dial_finish cid tag x c = (result, cm1)"
proof -
  obtain d w1 where d: "dial_tcp n leaf dest (md_domain md) i now dl w = Some (d, w1)"
    using assms by (cases "dial_tcp n leaf dest (md_domain md) i now dl w") (auto simp: dialer_dial_tcp_def)
  then obtain t' x where "d = Done t' x" using assms by (cases d) (auto simp: dialer_dial_tcp_def)
  then show ?thesis
    using assms d by (cases "dial_finish cid tag x c") (auto simp: dialer_dial_tcp_def)
qed

lemma dialed_stream:
  assumes "dialer_dial_tcp regex r om n leaf md dest secs now dl w cm = Some (Done t (Inr st), w', cm1)"
    and fresh: "cm_next_id cm \<notin> fst ` set (cm_active cm)"
  shows "\<exists>tag info. route regex r md = Inr tag \<and> tk_outbound_tag st = tag \<and> tk_inbound_tag st = md_inbound_tag md \<and>
    tk_user st = md_user md \<and> tk_id st = cm_next_id cm \<and> cm_active cm1 = cm_active cm @ [(cm_next_id cm, info)] \<and>
    cm_by_outbound cm1 = cm_by_outbound cm"
proof -
  obtain x c where x: "dial_begin regex r om md dest secs cm = (x, c)" by fastforce
  obtain cid tag i where "x = Inr (cid, tag, i)"
    using assms(1) x by (cases x) (auto simp: dialer_dial_tcp_def)
  then have b: "dial_begin regex r om md dest secs cm = (Inr (cid, tag, i), c)" using x by simp
  note ok = dial_begin_ok [OF b fresh]
  obtain info where info: "cm_active c = cm_active cm @ [(cid, info)]" "ci_inbound_tag info = md_inbound_tag md"
      "ci_outbound_tag info = tag" "ci_user info = md_user md"
    using ok(4) by blast
  obtain y where y: "dial_finish cid tag y c = (Inr st, cm1)" using dialer_result [OF assms(1) b] by blast
  then obtain conn where "st = tracked_stream conn cid c" "cm1 = c"
    by (cases rule: dial_finish_cases) simp_all
  moreover have "connection_info c cid = Some (md_inbound_tag md, tag, md_user md)"
  proof -
    have "map_of (cm_active cm) (cm_next_id cm) = None" using fresh by (simp add: map_of_eq_None_iff)
    then show ?thesis using info ok(3) by (simp add: connection_info_def map_add_def)
  qed
  ultimately show ?thesis using ok(1,3,5) info(1) by (intro exI [of _ tag] exI [of _ info]) (simp add: tracked_stream_def)
qed

text \<open>
  C39: A connection that the dialer returns carries the outbound the router chose, the inbound
  and the user it was opened for. It is in the table of connections, as one entry more than
  before, until it is dropped, after which the table is as it was. Whatever is read and
  written on it in between, in however many polls, is added to the counters of that outbound.
\<close>
theorem dialed_connection_lifecycle:
  assumes "dialer_dial_tcp regex r om n leaf md dest secs now dl w cm = Some (Done t (Inr st), w', cm1)"
    and "cm_next_id cm \<notin> fst ` set (cm_active cm)"
  shows "route regex r md = Inr (tk_outbound_tag st) \<and> tk_inbound_tag st = md_inbound_tag md \<and> tk_user st = md_user md \<and>
    active_count (fold (run_op st) ops cm1) = Suc (active_count cm) \<and>
    cm_active (stream_drop st (fold (run_op st) ops cm1)) = cm_active cm \<and>
    (let before = stats_of (cm_by_outbound cm) (tk_outbound_tag st);
         after = stats_of (cm_by_outbound (fold (run_op st) ops cm1)) (tk_outbound_tag st) in
     ts_uplink after = ts_uplink before + of_nat (sum_list (map written ops)) \<and>
     ts_downlink after = ts_downlink before + of_nat (sum_list (map read_back ops)))"
proof -
  obtain tag info where d: "route regex r md = Inr tag" "tk_outbound_tag st = tag" "tk_inbound_tag st = md_inbound_tag md"
      "tk_user st = md_user md" "tk_id st = cm_next_id cm" "cm_active cm1 = cm_active cm @ [(cm_next_id cm, info)]"
      "cm_by_outbound cm1 = cm_by_outbound cm"
    using dialed_stream [OF assms] by blast
  show ?thesis
    using run_ops [of st ops cm1] delete_fresh [OF assms(2)]
    by (simp add: d active_count_def stream_drop_def untrack_def)
qed

text \<open>A router without rules, and a connection to dial.\<close>

definition plain_router :: "string \<Rightarrow> RuleRouter" where
  "plain_router tag = \<lparr>rr_rules = \<lparr>ro_rules = [], ro_rule_set = [], ro_final_alt = None, ro_final_tag = None, ro_preset = None,
       ro_direct_tag = None, ro_proxy_tag = None, ro_auto_detect_interface = False, ro_default_interface = None,
       ro_download_path = None\<rparr>, rr_default_tag = tag, rr_rule_sets = [], rr_cache = None\<rparr>"

definition demo_md :: Metadata where
  "demo_md = \<lparr>md_network = Tcp, md_source = None, md_destination = Some demo_dest, md_domain = None, md_protocol = None,
     md_process_name = None, md_process_path = None, md_inbound_tag = ''in'', md_inbound_type = ''mixed'', md_user = Some ''u''\<rparr>"

definition demo_om :: OutboundManager where
  "demo_om = \<lparr>om_outbounds = [''a'', ''b'', ''f'', ''s''], om_default_tag = ''s'', om_index = build_index [''a'', ''b'', ''f'', ''s'']\<rparr>"

lemma route_plain: "route regex (plain_router tag) md = Inr tag"
  by (simp add: route_def plain_router_def)

theorem dialed_connection_lifecycle_witness:
  "\<exists>st w' cm1. dialer_dial_tcp (\<lambda>_ _. None) (plain_router ''s'') demo_om 3 demo_leaf demo_md demo_dest 0 0 None demo manager_new =
      Some (Done 57 (Inr st), w', cm1) \<and>
    tk_outbound_tag st = ''s'' \<and> active_count (fold (run_op st) [PollWrite (Ready 5), PollRead (Ready 9)] cm1) = 1 \<and>
    cm_active (stream_drop st (fold (run_op st) [PollWrite (Ready 5), PollRead (Ready 9)] cm1)) = []"
proof -
  have "om_get demo_om ''s'' = Inr 3" by (simp add: demo_om_def om_get_def demo_index idx_def)
  moreover have "md_domain demo_md = None" by (simp add: demo_md_def)
  ultimately obtain st w' cm1 where d: "dialer_dial_tcp (\<lambda>_ _. None) (plain_router ''s'') demo_om 3 demo_leaf demo_md demo_dest 0 0 None demo
      manager_new = Some (Done 57 (Inr st), w', cm1)"
    using demo_dial by (auto simp: dialer_dial_tcp_def dial_begin_def route_plain track_def dial_tcp_def dial_finish_def Let_def)
  have fresh: "cm_next_id manager_new \<notin> fst ` set (cm_active manager_new)" "active_count manager_new = 0" "cm_active manager_new = []"
    by (simp_all add: manager_new_def with_registry_def active_count_def)
  show ?thesis
    using d dialed_connection_lifecycle [OF d fresh(1), of "[PollWrite (Ready 5), PollRead (Ready 9)]"]
    by (intro exI [of _ st] exI [of _ w'] exI [of _ cm1]) (simp add: fresh route_plain)
qed

text \<open>A dial that fails at a known outbound leaves the table as it was.\<close>

lemma failed_dial_untracks:
  fixes leaf :: "nat \<Rightarrow> SocketAddr \<Rightarrow> string option \<Rightarrow> nat \<Rightarrow> 'c reply"
  assumes "dialer_dial_tcp regex r om n leaf md dest secs now dl w cm = Some (Done t (Inl (Err m)), w', cm1)"
    and "cm_next_id cm \<notin> fst ` set (cm_active cm)" "route regex r md = Inr tag" "om_get om tag = Inr i"
  shows "cm_active cm1 = cm_active cm"
proof -
  obtain cid c where b: "dial_begin regex r om md dest secs cm = (Inr (cid, tag, i), c)"
    using assms(3,4) by (cases "track secs (md_inbound_tag md) tag ''tcp'' (md_source md) (Some dest) (md_domain md) (md_user md) cm")
      (auto simp: dial_begin_def)
  obtain info where "cm_active c = cm_active cm @ [(cid, info)]" "cid = cm_next_id cm"
    using dial_begin_ok [OF b assms(2)] by blast
  moreover obtain x where "dial_finish cid tag x c = (Inl (Err m) :: 'c TrackedStream res, cm1)" using dialer_result [OF assms(1) b] by blast
  then have "cm1 = untrack cid c" by (cases rule: dial_finish_cases) simp_all
  ultimately show ?thesis using assms(2) by (simp add: untrack_def delete_fresh)
qed

text \<open>A further connection to the same destination, dialled at another time and with another deadline.\<close>

definition next_dial ::
    "(string \<Rightarrow> string \<Rightarrow> bool option) \<Rightarrow> RuleRouter \<Rightarrow> OutboundManager \<Rightarrow> nat \<Rightarrow>
     (nat \<Rightarrow> SocketAddr \<Rightarrow> string option \<Rightarrow> nat \<Rightarrow> 'c reply) \<Rightarrow> Metadata \<Rightarrow> SocketAddr \<Rightarrow> u64 \<times> nat \<times> nat option \<Rightarrow>
     Outbounds \<times> ConnectionManager \<Rightarrow> Outbounds \<times> ConnectionManager" where
  "next_dial regex r om n leaf md dest x s =
     (case x of (secs, now, dl) \<Rightarrow>
      case dialer_dial_tcp regex r om n leaf md dest secs now dl (fst s) (snd s) of Some (_, s') \<Rightarrow> s' | None \<Rightarrow> s)"

definition abandoned ::
    "OutboundManager \<Rightarrow> string \<Rightarrow> nat \<Rightarrow> (nat \<Rightarrow> SocketAddr \<Rightarrow> string option \<Rightarrow> nat \<Rightarrow> 'c reply) \<Rightarrow> Metadata \<Rightarrow> SocketAddr \<Rightarrow>
     u64 \<times> nat \<times> nat option \<Rightarrow> bool" where
  "abandoned om tag n leaf md dest x \<longleftrightarrow>
     (case om_get om tag of
        Inl e \<Rightarrow> True
      | Inr i \<Rightarrow> (case x of (secs, now, dl) \<Rightarrow> \<forall>w. \<exists>w'. dial n leaf False dest (md_domain md) i now dl w = Some (Cut, w')))"

lemma abandoned_tracks:
  assumes "route regex r md = Inr tag" "abandoned om tag n leaf md dest (secs, now, dl)"
  shows "snd (next_dial regex r om n leaf md dest (secs, now, dl) s) =
    snd (track secs (md_inbound_tag md) tag ''tcp'' (md_source md) (Some dest) (md_domain md) (md_user md) (snd s))"
proof -
  obtain cid c where t: "track secs (md_inbound_tag md) tag ''tcp'' (md_source md) (Some dest) (md_domain md) (md_user md) (snd s) = (cid, c)"
    by fastforce
  show ?thesis
  proof (cases "om_get om tag")
    case (Inl e)
    then show ?thesis using assms(1) t by (simp add: next_dial_def dialer_dial_tcp_def dial_begin_def)
  next
    case (Inr i)
    then obtain w' where "dial n leaf False dest (md_domain md) i now dl (fst s) = Some (Cut, w')"
      using assms(2) by (auto simp: abandoned_def)
    then show ?thesis using assms(1) t Inr by (simp add: next_dial_def dialer_dial_tcp_def dial_begin_def dial_tcp_def)
  qed
qed



end
