(* ===== verification/Spec2Isabelle.thy ===== *)
theory Spec2Isabelle
  imports Rsq_Control Udp_Fragment Obfs Hy2_Protocol Router Dns_Router Session_Accounting Stats_Query Group_Choice Dialer
begin

text \<open>
  A verification of rsbox, a proxy platform in Rust (paths below are under \<^verbatim>\<open>src/crates\<close>).
  Inbounds accept connections, the router chooses an outbound for each, DNS names are resolved by
  the DNS router, and outbounds carry the traffic, among others by the QUIC based protocol RSQ
  with its UDP fragmentation. Users of a panel have limits that the connection manager
  enforces while traffic is relayed.

  \<^bold>\<open>Vocabulary.\<close> \<open>Rust_Prelude\<close>, \<open>Rust_Strings\<close>, \<open>Rust_Net\<close>, \<open>Rust_Ipv6\<close> and \<open>Rust_Float\<close> model what the
  sources use of the language and its standard library: words, results with panics as a separate
  error, byte cursors, UTF-8, the methods of \<^verbatim>\<open>str\<close>, the address parser and printer, and
  \<^verbatim>\<open>f64\<close>. Arithmetic wraps as in a release build. \<open>Wire_Codec\<close>, \<open>Replay_Guard\<close> and \<open>First_Match\<close> hold the
  interfaces several components share: self-delimiting encodings, replay guards and lists of
  rules of which the first decides. Each is interpreted on the definitions of the components.

  \<^bold>\<open>RSQ.\<close> \<open>Rsq_Protocol\<close> models \<^verbatim>\<open>rsb-protocol/src/rsq/protocol.rs\<close>: frames, TCP open and reply, the UDP
  header. It shows that what is encoded is decoded with any bytes following, that a proper prefix
  is never taken for a frame and that no input makes a parser panic. \<open>Udp_Fragment\<close> models
  \<^verbatim>\<open>rsq/udp_fragment.rs\<close>: the fragments of a payload give it back in any order and in any
  reachable state of the reassembler, and the sizes are bounded. \<open>Rsq_Auth\<close> models
  \<^verbatim>\<open>rsq/auth.rs\<close> and \<^verbatim>\<open>rsq/traffic.rs\<close>: soundness and completeness of the verification of a request and
  the protection against replays with its limits. \<open>Rsq_Control\<close> models the keep-alive loops of
  \<^verbatim>\<open>rsq/control.rs\<close>. \<open>Obfs\<close> models the three packet obfuscators and \<open>Hy2_Protocol\<close> the TCP messages of
  Hysteria2 and RST, with round trips.

  \<^bold>\<open>Routing.\<close> \<open>Config\<close> models the options of \<^verbatim>\<open>rsb-config/src/lib.rs\<close> and the outbound table.
  \<open>Route_Match\<close> has the matchers of \<^verbatim>\<open>rsb-route/src/lib.rs\<close> with their specifications, \<open>Srs\<close> the reader of
  binary rule sets with its succinct trie (\<^verbatim>\<open>srs.rs\<close>; the walk over the bit vectors returns exactly the
  keys of the trie they encode), \<open>Rule_Sets\<close> the loading and the cache of rule sets and \<open>Router\<close> the choice
  of an outbound, which refines an order-free specification.

  \<^bold>\<open>DNS.\<close> \<open>Dns_Wire\<close> models the messages, \<open>Fake_Ip\<close> the pool of synthetic addresses and \<open>Dns_Router\<close> the
  servers, rules, cache and lookups of \<^verbatim>\<open>rsb-dns/src/lib.rs\<close>, where routers refer to each other through
  the registry of resolved services. The outer loop of a lookup runs on fuel; one round per
  router and one more are enough when the references are acyclic, and no amount is enough when
  a router refers to itself.

  \<^bold>\<open>Users.\<close> \<open>User_Registry\<close>, \<open>Rate_Limit\<close> and \<open>Connection_Manager\<close> model the files of the same names in
  \<^verbatim>\<open>rsb-core/src\<close> and the relay sessions of \<^verbatim>\<open>rsb-protocol/src/inbound_proxy.rs\<close> and \<^verbatim>\<open>user_relay.rs\<close>.
  Session limits are an invariant of a step relation over the operations of the manager, and can
  be exceeded when the two halves of an acquisition interleave. The loop of the rate limiter
  runs on fuel; the amounts for which it returns are characterised exactly.
  \<open>Session_Accounting\<close> shows that relays count what they write and how far they exceed a quota,
  \<open>Stats_Query\<close> that a query resets exactly the counters it reports.

  \<^bold>\<open>Outbounds.\<close> \<open>Outbound_Groups\<close> models \<^verbatim>\<open>group.rs\<close>, \<^verbatim>\<open>fallback.rs\<close>, \<^verbatim>\<open>urltest.rs\<close> and the construction of
  the outbounds (\<^verbatim>\<open>registry.rs\<close>, \<^verbatim>\<open>build.rs\<close>) of \<^verbatim>\<open>rsb-protocol/src\<close>. A world holds the outbounds with the
  atomics of the groups; dialling takes the time at which it starts and an optional deadline, and
  an outbound that is not a group is the parameter \<open>leaf\<close>, which answers after a while or never. Dialling
  through nested groups runs on fuel: a rank of the groups above their children is
  enough, and no amount is enough when the chosen children lead in a circle.
  \<open>Group_Choice\<close> shows which child a fallback group uses and which one a probe selects. \<open>Dialer\<close> models the
  dialer of \<^verbatim>\<open>rsb-core/src/runtime.rs\<close> and its tracked streams (\<^verbatim>\<open>proxy_stream.rs\<close>): routing, tracking,
  dialling and the life of an entry in the table of connections, including the dials that leave one behind.

  \<^bold>\<open>Not modelled.\<close> Cryptography, TLS, QUIC, HTTP, JSON text, regular expressions, sockets and clocks are
  parameters where the modelled code calls them. The other proxy protocols, TUN, the
  engine and the services around it, the platform code and the vendored libraries are not
  modelled: they consist of calls to such libraries or of input and output.
\<close>

end
